theory Spec2Isabelle
  imports Main
begin

section \<open>Browser storage and request configuration\<close>

text \<open>
  \<^verbatim>\<open>localStorage\<close> is a dictionary from keys to strings. \<^verbatim>\<open>getItem\<close> returns
  \<^verbatim>\<open>null\<close> (here \<open>None\<close>) for a key that is not stored.
\<close>

type_synonym storage = "string \<rightharpoonup> string"

definition getItem :: "storage \<Rightarrow> string \<Rightarrow> string option" where
  "getItem ls k = ls k"

definition setItem :: "storage \<Rightarrow> string \<Rightarrow> string \<Rightarrow> storage" where
  "setItem ls k v = ls(k \<mapsto> v)"

definition removeItem :: "storage \<Rightarrow> string \<Rightarrow> storage" where
  "removeItem ls k = ls(k := None)"

text \<open>The part of the browser that both the gateway and the Session Context touch.\<close>

record browser =
  localStorage :: storage

text \<open>
  An axios request configuration, restricted to what the interceptors of
  \<^verbatim>\<open>frontend/lib/api.ts\<close> read and write: the target, the
  \<^verbatim>\<open>headers.Authorization\<close> entry and the \<^verbatim>\<open>_retry\<close> mark. \<open>rid\<close> is the
  identity of the logical request (the configuration object that a replay passes on).
\<close>

record request_config =
  rid :: nat
  url :: string
  Authorization :: "string option"
  retry :: bool

text \<open>The template literal \<^verbatim>\<open>`Bearer ${token}`\<close>.\<close>

definition bearer :: "string \<Rightarrow> string" where
  "bearer token = ''Bearer '' @ token"

text \<open>
  The request interceptor (\<^verbatim>\<open>api.interceptors.request.use\<close>, api.ts lines 12-18).
  \<^verbatim>\<open>if (token)\<close> is JavaScript truthiness of a \<^verbatim>\<open>string | null\<close>: false for
  \<^verbatim>\<open>null\<close> and for the empty string.
\<close>

definition request_interceptor :: "storage \<Rightarrow> request_config \<Rightarrow> request_config" where
  "request_interceptor ls config =
     (case getItem ls ''accessToken'' of
        None \<Rightarrow> config
      | Some token \<Rightarrow>
          if token \<noteq> [] then config\<lparr>Authorization := Some (bearer token)\<rparr> else config)"

section \<open>Refresh Coordinator (frontend/lib/api.ts)\<close>

text \<open>
  The client is single-threaded: a handler runs without interruption until it returns or
  reaches an \<^verbatim>\<open>await\<close>. The model is therefore a state machine whose steps are the
  environment's events (a caller issues a request, a response arrives, the refresh call
  settles), each running the code up to the next suspension point.
\<close>

text \<open>
  What the transport delivers for a request: a successful response, or an error whose
  \<^verbatim>\<open>error.response?.status\<close> is the given status (\<open>None\<close> when there is no
  response at all, a transport failure).
\<close>

datatype response = Success | Failure "nat option"

text \<open>
  How \<^verbatim>\<open>await axios.post(.../users/refresh-token)\<close> ends inside the \<^verbatim>\<open>try\<close>:
  with \<^verbatim>\<open>refreshResponse.data.data.accessToken\<close>, or in the \<^verbatim>\<open>catch\<close> block.
\<close>

datatype refresh_result = RefreshOk string | RefreshFailed

text \<open>How the promise handed to the caller of a request ends.\<close>

datatype settlement = Fulfilled | RejectedStatus "nat option" | RejectedRefresh

text \<open>
  The module state of api.ts (\<open>isRefreshing\<close>, \<open>refreshSubscribers\<close>), the browser state
  it touches (\<open>localStorage\<close>, the events given to \<^verbatim>\<open>window.dispatchEvent\<close>,
  \<^verbatim>\<open>window.location.href\<close>), the control state of the runtime (\<open>awaiting\<close>: the
  original requests of handlers suspended at the refresh call; \<open>inflight\<close>: requests on
  the wire) and a log of what happened (\<open>refreshCalls\<close>, \<open>replayed\<close>, \<open>settled\<close>).
  A queued callback closes over its \<^verbatim>\<open>originalRequest\<close> and the \<^verbatim>\<open>resolve\<close> of
  the promise returned for it, so the queue holds the original requests.
\<close>

record gateway = browser +
  isRefreshing :: bool
  refreshSubscribers :: "request_config list"
  awaiting :: "request_config list"
  inflight :: "request_config list"
  next_rid :: nat
  refreshCalls :: nat
  replayed :: "request_config list"
  settled :: "(nat \<times> settlement) list"
  dispatched :: "string list"
  location_href :: "string option"

definition init :: "storage \<Rightarrow> gateway" where
  "init ls = \<lparr>localStorage = ls, isRefreshing = False, refreshSubscribers = [], awaiting = [],
     inflight = [], next_rid = 0, refreshCalls = 0, replayed = [], settled = [],
     dispatched = [], location_href = None\<rparr>"

text \<open>\<^verbatim>\<open>api(config)\<close>: the request interceptor runs and the request goes on the wire.\<close>

definition api :: "request_config \<Rightarrow> gateway \<Rightarrow> gateway" where
  "api config g = g\<lparr>inflight := inflight g @ [request_interceptor (localStorage g) config]\<rparr>"

text \<open>
  \<^verbatim>\<open>api(originalRequest)\<close> inside the response interceptor: the request is issued
  again, and the log records the configuration that goes out.
\<close>

definition replay :: "request_config \<Rightarrow> gateway \<Rightarrow> gateway" where
  "replay originalRequest g =
     api originalRequest
       (g\<lparr>replayed := replayed g @ [request_interceptor (localStorage g) originalRequest]\<rparr>)"

text \<open>
  The queued callback (api.ts lines 44-47):
  \<^verbatim>\<open>(token) => { originalRequest.headers.Authorization = `Bearer ${token}`; resolve(api(originalRequest)); }\<close>
\<close>

definition subscriber_callback :: "string \<Rightarrow> request_config \<Rightarrow> gateway \<Rightarrow> gateway" where
  "subscriber_callback token originalRequest g =
     replay (originalRequest\<lparr>Authorization := Some (bearer token)\<rparr>) g"

text \<open>\<^verbatim>\<open>onTokenRefreshed\<close> (lines 23-26) and \<^verbatim>\<open>addRefreshSubscriber\<close> (lines 28-30).\<close>

definition onTokenRefreshed :: "string \<Rightarrow> gateway \<Rightarrow> gateway" where
  "onTokenRefreshed token g =
     (fold (subscriber_callback token) (refreshSubscribers g) g)\<lparr>refreshSubscribers := []\<rparr>"

definition addRefreshSubscriber :: "request_config \<Rightarrow> gateway \<Rightarrow> gateway" where
  "addRefreshSubscriber callback g = g\<lparr>refreshSubscribers := refreshSubscribers g @ [callback]\<rparr>"

text \<open>
  The rejection handler of the response interceptor (lines 35-82), up to its first
  suspension point: it rejects, or queues the request behind the refresh in flight, or
  sets the flag and issues the refresh call.
\<close>

definition on_rejected :: "nat option \<Rightarrow> request_config \<Rightarrow> gateway \<Rightarrow> gateway" where
  "on_rejected status originalRequest g =
     (if status = Some 401 \<and> \<not> retry originalRequest then
        let originalRequest = originalRequest\<lparr>retry := True\<rparr> in
        if isRefreshing g then addRefreshSubscriber originalRequest g
        else g\<lparr>isRefreshing := True,
               refreshCalls := Suc (refreshCalls g),
               awaiting := awaiting g @ [originalRequest]\<rparr>
      else g\<lparr>settled := settled g @ [(rid originalRequest, RejectedStatus status)]\<rparr>)"

text \<open>The rest of the \<^verbatim>\<open>try\<close> block once the refresh call has resolved (lines 59-69).\<close>

definition refresh_resolved :: "string \<Rightarrow> request_config \<Rightarrow> gateway \<Rightarrow> gateway" where
  "refresh_resolved accessToken originalRequest g =
     (let g1 = g\<lparr>localStorage := setItem (localStorage g) ''accessToken'' accessToken\<rparr>;
          originalRequest = originalRequest\<lparr>Authorization := Some (bearer accessToken)\<rparr>;
          g2 = onTokenRefreshed accessToken g1;
          g3 = g2\<lparr>isRefreshing := False\<rparr>
      in replay originalRequest g3)"

text \<open>The \<^verbatim>\<open>catch (refreshError)\<close> block (lines 70-79).\<close>

definition refresh_rejected :: "request_config \<Rightarrow> gateway \<Rightarrow> gateway" where
  "refresh_rejected originalRequest g =
     g\<lparr>localStorage := removeItem (localStorage g) ''accessToken'',
       isRefreshing := False,
       refreshSubscribers := [],
       dispatched := dispatched g @ [''auth:tokenExpired''],
       settled := settled g @ [(rid originalRequest, RejectedRefresh)]\<rparr>"

text \<open>
  The events of the environment. \<open>Call u\<close>: a caller issues a fresh request for \<open>u\<close>
  through \<^verbatim>\<open>api\<close>. \<open>Response r x\<close>: the transport answers the request \<open>r\<close> that is
  on the wire (ignored when it is not). \<open>RefreshSettled x\<close>: the refresh call of the oldest
  suspended handler settles (ignored when none is suspended).
\<close>

datatype event = Call string | Response nat response | RefreshSettled refresh_result

fun step :: "gateway \<Rightarrow> event \<Rightarrow> gateway" where
  "step g (Call u) =
     api \<lparr>rid = next_rid g, url = u, Authorization = None, retry = False\<rparr>
       (g\<lparr>next_rid := Suc (next_rid g)\<rparr>)"
| "step g (Response r x) =
     (case find (\<lambda>c. rid c = r) (inflight g) of
        None \<Rightarrow> g
      | Some config \<Rightarrow>
          let g' = g\<lparr>inflight := remove1 config (inflight g)\<rparr> in
          (case x of
             Success \<Rightarrow> g'\<lparr>settled := settled g' @ [(r, Fulfilled)]\<rparr>
           | Failure status \<Rightarrow> on_rejected status config g'))"
| "step g (RefreshSettled x) =
     (case awaiting g of
        [] \<Rightarrow> g
      | originalRequest # rest \<Rightarrow>
          let g' = g\<lparr>awaiting := rest\<rparr> in
          (case x of
             RefreshOk accessToken \<Rightarrow> refresh_resolved accessToken originalRequest g'
           | RefreshFailed \<Rightarrow> refresh_rejected originalRequest g'))"

definition run :: "gateway \<Rightarrow> event list \<Rightarrow> gateway" where
  "run g evs = foldl step g evs"

text \<open>
  A request is still pending when something can yet settle it: it is on the wire, in the
  wait queue, or its handler is suspended at the refresh call.
\<close>

definition pending :: "gateway \<Rightarrow> nat \<Rightarrow> bool" where
  "pending g r = (r \<in> rid ` set (inflight g @ refreshSubscribers g @ awaiting g))"

text \<open>
  What the replay of a woken request puts on the wire: the header set by the interceptor,
  then the request interceptor reading the storage.
\<close>

definition sent_as :: "storage \<Rightarrow> string \<Rightarrow> request_config \<Rightarrow> request_config" where
  "sent_as ls token c = request_interceptor ls (c\<lparr>Authorization := Some (bearer token)\<rparr>)"

text \<open>
  The invariant of the coordinator. \<open>rids\<close> collects the identities of a list of
  requests. In every reachable state the requests on the wire, in the queue and suspended
  are pairwise different and were issued before; a request that waits for the refresh is
  marked and has not been replayed; a request on the wire that is not marked has not been
  replayed; no request occurs twice among the replayed ones, and each of them is marked.
\<close>

definition rids :: "request_config list \<Rightarrow> nat set" where
  "rids cs = rid ` set cs"

definition ok ::
  "request_config list \<Rightarrow> request_config list \<Rightarrow> request_config list \<Rightarrow>
   request_config list \<Rightarrow> nat \<Rightarrow> bool" where
  "ok I S A R n =
     ((\<forall>r\<in>rids I \<union> rids S \<union> rids A \<union> rids R. r < n)
      \<and> distinct (map rid I) \<and> distinct (map rid S) \<and> distinct (map rid A)
      \<and> distinct (map rid R)
      \<and> rids I \<inter> rids S = {} \<and> rids I \<inter> rids A = {} \<and> rids S \<inter> rids A = {}
      \<and> rids S \<inter> rids R = {} \<and> rids A \<inter> rids R = {}
      \<and> (\<forall>c\<in>set S \<union> set A \<union> set R. retry c)
      \<and> (\<forall>c\<in>set I. retry c \<or> rid c \<notin> rids R))"

definition inv :: "gateway \<Rightarrow> bool" where
  "inv g = ok (inflight g) (refreshSubscribers g) (awaiting g) (replayed g) (next_rid g)"

section \<open>The earlier response interceptor (unnamed source file part 005)\<close>

text \<open>
  A second copy of the client module has the same request interceptor and a response
  interceptor without the \<^verbatim>\<open>_retry\<close> mark, the flag and the queue (lines 21-43):
  every 401 starts a refresh call of its own; on success the request is issued again
  with \<^verbatim>\<open>api.request(error.config)\<close>; on failure the page is sent to
  \<^verbatim>\<open>/login\<close> and the original error is rejected.
\<close>

definition on_rejected_legacy :: "nat option \<Rightarrow> request_config \<Rightarrow> gateway \<Rightarrow> gateway" where
  "on_rejected_legacy status config g =
     (if status = Some 401 then
        g\<lparr>refreshCalls := Suc (refreshCalls g), awaiting := awaiting g @ [config]\<rparr>
      else g\<lparr>settled := settled g @ [(rid config, RejectedStatus status)]\<rparr>)"

definition refresh_resolved_legacy :: "string \<Rightarrow> request_config \<Rightarrow> gateway \<Rightarrow> gateway" where
  "refresh_resolved_legacy accessToken config g =
     (let g1 = g\<lparr>localStorage := setItem (localStorage g) ''accessToken'' accessToken\<rparr>;
          config = config\<lparr>Authorization := Some (bearer accessToken)\<rparr>
      in replay config g1)"

definition refresh_rejected_legacy :: "request_config \<Rightarrow> gateway \<Rightarrow> gateway" where
  "refresh_rejected_legacy config g =
     g\<lparr>location_href := Some ''/login'',
       settled := settled g @ [(rid config, RejectedStatus (Some 401))]\<rparr>"

fun step_legacy :: "gateway \<Rightarrow> event \<Rightarrow> gateway" where
  "step_legacy g (Call u) =
     api \<lparr>rid = next_rid g, url = u, Authorization = None, retry = False\<rparr>
       (g\<lparr>next_rid := Suc (next_rid g)\<rparr>)"
| "step_legacy g (Response r x) =
     (case find (\<lambda>c. rid c = r) (inflight g) of
        None \<Rightarrow> g
      | Some config \<Rightarrow>
          let g' = g\<lparr>inflight := remove1 config (inflight g)\<rparr> in
          (case x of
             Success \<Rightarrow> g'\<lparr>settled := settled g' @ [(r, Fulfilled)]\<rparr>
           | Failure status \<Rightarrow> on_rejected_legacy status config g'))"
| "step_legacy g (RefreshSettled x) =
     (case awaiting g of
        [] \<Rightarrow> g
      | config # rest \<Rightarrow>
          let g' = g\<lparr>awaiting := rest\<rparr> in
          (case x of
             RefreshOk accessToken \<Rightarrow> refresh_resolved_legacy accessToken config g'
           | RefreshFailed \<Rightarrow> refresh_rejected_legacy config g'))"

definition run_legacy :: "gateway \<Rightarrow> event list \<Rightarrow> gateway" where
  "run_legacy g evs = foldl step_legacy g evs"

section \<open>Session Context (frontend/contexts/AuthContext.tsx)\<close>

text \<open>The \<^verbatim>\<open>User\<close> interface of frontend/types/auth.ts.\<close>

record User =
  user_id :: string
  user_username :: string
  user_email :: string
  user_fullName :: string
  user_avatar :: string
  user_coverImage :: "string option"
  createdAt :: string
  updatedAt :: string

text \<open>
  How an awaited \<^verbatim>\<open>authAPI\<close> call ends: with the \<^verbatim>\<open>data\<close> of the response
  envelope, or rejected with an error that has the status of the response (\<open>None\<close> when
  there is none: a transport failure, or the refresh error) and the message of its body.
\<close>

datatype api_error = ApiError "nat option" "string option"

datatype 'a api_result = Resolved 'a | Rejected api_error

text \<open>
  The state of \<^verbatim>\<open>AuthProvider\<close>: \<^verbatim>\<open>useState<User | null>(null)\<close>,
  \<^verbatim>\<open>useState(true)\<close>, and the browser storage it writes.
\<close>

record auth_state = browser +
  user :: "User option"
  isLoading :: bool

definition AuthProvider_initial :: "storage \<Rightarrow> auth_state" where
  "AuthProvider_initial ls = \<lparr>localStorage = ls, user = None, isLoading = True\<rparr>"

text \<open>\<^verbatim>\<open>isAuthenticated: !!user\<close>.\<close>

definition isAuthenticated :: "'a auth_state_scheme \<Rightarrow> bool" where
  "isAuthenticated s = (user s \<noteq> None)"

text \<open>
  \<^verbatim>\<open>checkAuthStatus\<close> (lines 34-43), given how \<^verbatim>\<open>authAPI.getCurrentUser()\<close>
  ended: the \<^verbatim>\<open>try\<close> or the \<^verbatim>\<open>catch\<close> branch, then the \<^verbatim>\<open>finally\<close> block.
\<close>

definition checkAuthStatus ::
  "User option api_result \<Rightarrow> 'a auth_state_scheme \<Rightarrow> 'a auth_state_scheme" where
  "checkAuthStatus probe s =
     (let s1 = (case probe of
                  Resolved data \<Rightarrow> s\<lparr>user := data\<rparr>
                | Rejected error \<Rightarrow> s\<lparr>user := None\<rparr>)
      in s1\<lparr>isLoading := False\<rparr>)"

text \<open>
  \<^verbatim>\<open>login\<close>, \<^verbatim>\<open>signup\<close> and \<^verbatim>\<open>logout\<close> (lines 45-63). Each awaits its
  \<^verbatim>\<open>authAPI\<close> call first and has no \<^verbatim>\<open>try\<close>: when the call is rejected the
  function rejects with the same error and the statements after the \<^verbatim>\<open>await\<close> do
  not run. The result is what the caller's promise gets, and the new state.
\<close>

definition login ::
  "(User \<times> string) api_result \<Rightarrow> 'a auth_state_scheme \<Rightarrow> unit api_result \<times> 'a auth_state_scheme" where
  "login response s =
     (case response of
        Resolved (u, accessToken) \<Rightarrow>
          (Resolved (),
           s\<lparr>user := Some u,
             localStorage := setItem (localStorage s) ''accessToken'' accessToken\<rparr>)
      | Rejected error \<Rightarrow> (Rejected error, s))"

definition signup ::
  "(User \<times> string) api_result \<Rightarrow> 'a auth_state_scheme \<Rightarrow> unit api_result \<times> 'a auth_state_scheme" where
  "signup response s =
     (case response of
        Resolved (u, accessToken) \<Rightarrow>
          (Resolved (),
           s\<lparr>user := Some u,
             localStorage := setItem (localStorage s) ''accessToken'' accessToken\<rparr>)
      | Rejected error \<Rightarrow> (Rejected error, s))"

definition logout ::
  "unit api_result \<Rightarrow> 'a auth_state_scheme \<Rightarrow> unit api_result \<times> 'a auth_state_scheme" where
  "logout response s =
     (case response of
        Resolved _ \<Rightarrow>
          (Resolved (),
           s\<lparr>user := None,
             localStorage := removeItem (localStorage s) ''accessToken''\<rparr>)
      | Rejected error \<Rightarrow> (Rejected error, s))"




section \<open>Signup form (unnamed source file part 002, SignupForm)\<close>

text \<open>
  The form state (\<^verbatim>\<open>useState\<close> at lines 471-478): four strings, initially empty,
  and two files, initially \<^verbatim>\<open>null\<close>. A file is known by its name.
\<close>

type_synonym File = string

record signup_form =
  username :: string
  email :: string
  password :: string
  fullName :: string
  avatar :: "File option"
  coverImage :: "File option"

text \<open>
  \<^verbatim>\<open>validateForm\<close> (lines 499-508): \<^verbatim>\<open>newErrors\<close> with its keys in insertion
  order; \<^verbatim>\<open>!formData.username\<close> is true for the empty string, \<^verbatim>\<open>!formData.avatar\<close>
  for \<^verbatim>\<open>null\<close>. The form is valid when \<^verbatim>\<open>newErrors\<close> has no key.
\<close>

definition newErrors :: "signup_form \<Rightarrow> (string \<times> string) list" where
  "newErrors formData =
     (if username formData = [] then [(''username'', ''Username is required'')] else [])
     @ (if email formData = [] then [(''email'', ''Email is required'')] else [])
     @ (if password formData = [] then [(''password'', ''Password is required'')] else [])
     @ (if fullName formData = [] then [(''fullName'', ''Full name is required'')] else [])
     @ (if avatar formData = None then [(''avatar'', ''Avatar is required'')] else [])"

definition validateForm :: "signup_form \<Rightarrow> bool" where
  "validateForm formData = (length (map fst (newErrors formData)) = 0)"

text \<open>The multipart body built at lines 516-522.\<close>

datatype part = Text string | Blob File

definition formDataToSend :: "signup_form \<Rightarrow> (string \<times> part) list" where
  "formDataToSend formData =
     [(''username'', Text (username formData)),
      (''email'', Text (email formData)),
      (''password'', Text (password formData)),
      (''fullName'', Text (fullName formData))]
     @ (case avatar formData of Some f \<Rightarrow> [(''avatar'', Blob f)] | None \<Rightarrow> [])
     @ (case coverImage formData of Some f \<Rightarrow> [(''coverImage'', Blob f)] | None \<Rightarrow> [])"

text \<open>
  The page: the Session Context, the form's own \<^verbatim>\<open>errors\<close> and \<^verbatim>\<open>isLoading\<close>
  states, the requests handed to \<^verbatim>\<open>api.post\<close> and the routes pushed.
\<close>

record signup_page = auth_state +
  errors :: "(string \<times> string) list"
  isLoading_form :: bool
  posted :: "(string \<times> (string \<times> part) list) list"
  pushed :: "string list"

text \<open>
  \<^verbatim>\<open>handleSubmit\<close> (lines 510-531). \<open>server\<close> is how the registration endpoint
  answers a body. \<^verbatim>\<open>error.response?.data?.message || 'Signup failed'\<close> takes the
  message when there is a non-empty one.
\<close>

definition handleSubmit ::
  "signup_form \<Rightarrow> ((string \<times> part) list \<Rightarrow> (User \<times> string) api_result) \<Rightarrow>
   signup_page \<Rightarrow> signup_page" where
  "handleSubmit formData server p =
     (let p = p\<lparr>errors := newErrors formData\<rparr> in
      if \<not> validateForm formData then p
      else
        let p = p\<lparr>isLoading_form := True\<rparr>;
            body = formDataToSend formData;
            p = p\<lparr>posted := posted p @ [(''/users/register'', body)]\<rparr>;
            p = (case signup (server body) p of
                   (Resolved _, p') \<Rightarrow> p'\<lparr>pushed := pushed p' @ [''/dashboard'']\<rparr>
                 | (Rejected (ApiError status message), p') \<Rightarrow>
                     p'\<lparr>errors := [(''general'',
                        (case message of
                           Some m \<Rightarrow> if m \<noteq> [] then m else ''Signup failed''
                         | None \<Rightarrow> ''Signup failed''))]\<rparr>)
        in p\<lparr>isLoading_form := False\<rparr>)"

section \<open>Route Guard (frontend/components/ui/AuthGuard.tsx)\<close>

text \<open>
  What the component returns: the spinner (or \<^verbatim>\<open>Loading...\<close>) while loading,
  \<^verbatim>\<open>null\<close>, or its children. What it asks of the router.
\<close>

datatype rendered = Placeholder | Nothing | Children

datatype navigation = Replace string | Push string

text \<open>
  The props (defaults \<^verbatim>\<open>requireAuth = true\<close>, \<^verbatim>\<open>redirectTo = '/login'\<close>) and
  the identity of the object \<^verbatim>\<open>useRouter()\<close> returned for this render.
\<close>

record guard_props =
  requireAuth :: bool
  redirectTo :: string
  router :: nat

text \<open>
  What React keeps for a mounted instance: the dependency values each effect last ran
  with (\<open>None\<close> before the first render), the \<^verbatim>\<open>hasRedirected\<close> ref, and here
  the navigations issued so far.
\<close>

type_synonym redirect_dependencies = "bool \<times> bool \<times> bool \<times> string \<times> nat"

record guard_instance =
  redirect_deps :: "redirect_dependencies option"
  reset_deps :: "bool option"
  hasRedirected :: bool
  navigations :: "navigation list"

definition mounted :: guard_instance where
  "mounted = \<lparr>redirect_deps = None, reset_deps = None, hasRedirected = False, navigations = []\<rparr>"

text \<open>
  \<^verbatim>\<open>useEffect(effect, deps)\<close>: after a render the effect runs on mount and whenever
  a dependency differs from its value at the previous render.
\<close>

definition useEffect :: "'d option \<Rightarrow> 'd \<Rightarrow> ('s \<Rightarrow> 's) \<Rightarrow> 's \<Rightarrow> 's" where
  "useEffect previous deps effect s = (if previous = Some deps then s else effect s)"

text \<open>The value the component returns (lines 39-55 and 86-98; the same in both versions).\<close>

definition AuthGuard_render :: "guard_props \<Rightarrow> 'a auth_state_scheme \<Rightarrow> rendered" where
  "AuthGuard_render props auth =
     (if isLoading auth then Placeholder
      else if requireAuth props \<and> \<not> isAuthenticated auth then Nothing
      else if \<not> requireAuth props \<and> isAuthenticated auth then Nothing
      else Children)"

text \<open>
  First version (lines 13-56): the redirect effect guarded by the \<^verbatim>\<open>hasRedirected\<close>
  ref (lines 22-32), then the effect that resets the ref when \<^verbatim>\<open>isAuthenticated\<close>
  changes (lines 35-37). Effects run in the order they are declared.
\<close>

definition redirect_effect ::
  "guard_props \<Rightarrow> 'a auth_state_scheme \<Rightarrow> guard_instance \<Rightarrow> guard_instance" where
  "redirect_effect props auth inst =
     (if \<not> isLoading auth \<and> \<not> hasRedirected inst then
        if requireAuth props \<and> \<not> isAuthenticated auth then
          inst\<lparr>hasRedirected := True,
               navigations := navigations inst @ [Replace (redirectTo props)]\<rparr>
        else if \<not> requireAuth props \<and> isAuthenticated auth then
          inst\<lparr>hasRedirected := True,
               navigations := navigations inst @ [Replace ''/dashboard'']\<rparr>
        else inst
      else inst)"

definition AuthGuard_effects ::
  "guard_props \<Rightarrow> 'a auth_state_scheme \<Rightarrow> guard_instance \<Rightarrow> guard_instance" where
  "AuthGuard_effects props auth inst =
     (let deps = (isAuthenticated auth, isLoading auth, requireAuth props, redirectTo props,
                  router props);
          inst = (useEffect (redirect_deps inst) deps (redirect_effect props auth) inst)
                   \<lparr>redirect_deps := Some deps\<rparr>;
          inst = (useEffect (reset_deps inst) (isAuthenticated auth)
                    (\<lambda>i. i\<lparr>hasRedirected := False\<rparr>) inst)
                   \<lparr>reset_deps := Some (isAuthenticated auth)\<rparr>
      in inst)"

text \<open>Second version (lines 68-99): one effect, no ref, \<^verbatim>\<open>router.push\<close>.\<close>

definition redirect_effect2 ::
  "guard_props \<Rightarrow> 'a auth_state_scheme \<Rightarrow> guard_instance \<Rightarrow> guard_instance" where
  "redirect_effect2 props auth inst =
     (if \<not> isLoading auth then
        if requireAuth props \<and> \<not> isAuthenticated auth then
          inst\<lparr>navigations := navigations inst @ [Push (redirectTo props)]\<rparr>
        else if \<not> requireAuth props \<and> isAuthenticated auth then
          inst\<lparr>navigations := navigations inst @ [Push ''/dashboard'']\<rparr>
        else inst
      else inst)"

definition AuthGuard2_effects ::
  "guard_props \<Rightarrow> 'a auth_state_scheme \<Rightarrow> guard_instance \<Rightarrow> guard_instance" where
  "AuthGuard2_effects props auth inst =
     (let deps = (isAuthenticated auth, isLoading auth, requireAuth props, redirectTo props,
                  router props)
      in (useEffect (redirect_deps inst) deps (redirect_effect2 props auth) inst)
           \<lparr>redirect_deps := Some deps\<rparr>)"

text \<open>
  A mounted guard rendered once for each state of the Session Context in a list, in
  order: what it shows at each render, and the instance after the last one.
\<close>

definition shown :: "guard_props \<Rightarrow> 'a auth_state_scheme list \<Rightarrow> rendered list" where
  "shown props auths = map (AuthGuard_render props) auths"

definition renders ::
  "guard_props \<Rightarrow> 'a auth_state_scheme list \<Rightarrow> guard_instance \<Rightarrow> guard_instance" where
  "renders props auths inst = foldl (\<lambda>i a. AuthGuard_effects props a i) inst auths"

definition renders2 ::
  "guard_props \<Rightarrow> 'a auth_state_scheme list \<Rightarrow> guard_instance \<Rightarrow> guard_instance" where
  "renders2 props auths inst = foldl (\<lambda>i a. AuthGuard2_effects props a i) inst auths"

section \<open>Session Record and Credential Issuer (server side)\<close>

text \<open>
  Modelled from the spec: the server's routes, controllers and user model (what
  \<^verbatim>\<open>backend/src/app.js\<close> imports as \<^verbatim>\<open>./routes/user.routes.js\<close>) are not among
  the source files. A credential is an opaque signed token bound to an identity, with a
  fixed lifetime; \<open>genuine\<close> says that its signature verifies, \<open>serial\<close> tells two
  tokens minted for the same identity apart.
\<close>

datatype AuthError = TokenExpired | TokenInvalid | TokenRevoked

record credential =
  subject :: nat
  serial :: nat
  expires :: nat
  genuine :: bool

text \<open>
  Modelled from the spec: the Session Store is a pure persistence contract,
  \<^verbatim>\<open>get(identityId) -> refresh credential | absent\<close>, \<^verbatim>\<open>set(identityId, token)\<close>,
  \<^verbatim>\<open>clear(identityId)\<close>, with a single slot per identity.
\<close>

type_synonym session_store = "nat \<rightharpoonup> credential"

definition store_get :: "session_store \<Rightarrow> nat \<Rightarrow> credential option" where
  "store_get st identityId = st identityId"

definition store_set :: "session_store \<Rightarrow> nat \<Rightarrow> credential \<Rightarrow> session_store" where
  "store_set st identityId token = st(identityId \<mapsto> token)"

definition store_clear :: "session_store \<Rightarrow> nat \<Rightarrow> session_store" where
  "store_clear st identityId = st(identityId := None)"

text \<open>
  Modelled from the spec: \<^verbatim>\<open>issue(identity) -> CredentialPair\<close> generates the two
  credentials (here given, since minting is opaque) and writes the refresh credential into
  the Session Record, overwriting the prior value.
\<close>

definition issue ::
  "nat \<Rightarrow> credential \<Rightarrow> credential \<Rightarrow> session_store \<Rightarrow>
   (credential \<times> credential) \<times> session_store" where
  "issue identityId access refresh st = ((access, refresh), store_set st identityId refresh)"

text \<open>
  Modelled from the spec: \<^verbatim>\<open>verifyRefresh(token) -> identity id | fails
  AuthError(expired|invalid|revoked)\<close>; it additionally fails \<^verbatim>\<open>revoked\<close> if the
  presented token does not match the currently stored Session Record value.
\<close>

definition verifyRefresh :: "nat \<Rightarrow> session_store \<Rightarrow> credential \<Rightarrow> AuthError + nat" where
  "verifyRefresh now st token =
     (if \<not> genuine token then Inl TokenInvalid
      else if expires token \<le> now then Inl TokenExpired
      else if store_get st (subject token) \<noteq> Some token then Inl TokenRevoked
      else Inr (subject token))"

text \<open>
  Modelled from the spec: \<^verbatim>\<open>revoke(identityId)\<close> clears the Session Record; logout
  calls it.
\<close>

definition revoke :: "nat \<Rightarrow> session_store \<Rightarrow> session_store" where
  "revoke identityId st = store_clear st identityId"

section \<open>Request Gateway\<close>

text \<open>
  C7 (as the code has it). Every outbound request passes the request interceptor. When a
  non-empty string is stored under \<^verbatim>\<open>accessToken\<close> (what \<^verbatim>\<open>if (token)\<close>
  accepts), the outgoing configuration carries it as \<^verbatim>\<open>Authorization: Bearer <token>\<close>
  and is otherwise the configuration passed in. When nothing is stored, or the empty
  string, the interceptor returns the configuration exactly as it was passed in: it adds
  no Authorization header and removes none.
\<close>

theorem request_interceptor_attaches_bearer:
  "(getItem ls ''accessToken'' = Some token \<and> token \<noteq> [] \<longrightarrow>
      request_interceptor ls config = config\<lparr>Authorization := Some (bearer token)\<rparr>
      \<and> Authorization (request_interceptor ls config) = Some (''Bearer '' @ token)
      \<and> rid (request_interceptor ls config) = rid config
      \<and> url (request_interceptor ls config) = url config
      \<and> retry (request_interceptor ls config) = retry config)
   \<and> (getItem ls ''accessToken'' = None \<or> getItem ls ''accessToken'' = Some [] \<longrightarrow>
      request_interceptor ls config = config)"
  by (auto simp: request_interceptor_def bearer_def)

text \<open>
  The theorem at a stored credential, at an empty storage, and at a stored empty string
  with a configuration that already has a header.
\<close>

theorem request_interceptor_attaches_bearer_witness:
  "getItem (setItem Map.empty ''accessToken'' ''t1'') ''accessToken'' = Some ''t1''
   \<and> ''t1'' \<noteq> []
   \<and> request_interceptor (setItem Map.empty ''accessToken'' ''t1'')
        \<lparr>rid = 0, url = ''/users/me'', Authorization = None, retry = False\<rparr>
       = \<lparr>rid = 0, url = ''/users/me'', Authorization = Some ''Bearer t1'', retry = False\<rparr>
   \<and> getItem Map.empty ''accessToken'' = None
   \<and> request_interceptor Map.empty
        \<lparr>rid = 0, url = ''/users/me'', Authorization = None, retry = False\<rparr>
       = \<lparr>rid = 0, url = ''/users/me'', Authorization = None, retry = False\<rparr>
   \<and> getItem (setItem Map.empty ''accessToken'' []) ''accessToken'' = Some []
   \<and> request_interceptor (setItem Map.empty ''accessToken'' [])
        \<lparr>rid = 0, url = ''/users/me'', Authorization = Some ''Bearer t0'', retry = True\<rparr>
       = \<lparr>rid = 0, url = ''/users/me'', Authorization = Some ''Bearer t0'', retry = True\<rparr>"
  using request_interceptor_attaches_bearer
    [of "setItem Map.empty ''accessToken'' ''t1''" "''t1''"
        "\<lparr>rid = 0, url = ''/users/me'', Authorization = None, retry = False\<rparr>"]
    request_interceptor_attaches_bearer
    [of Map.empty "''t1''"
        "\<lparr>rid = 0, url = ''/users/me'', Authorization = None, retry = False\<rparr>"]
    request_interceptor_attaches_bearer
    [of "setItem Map.empty ''accessToken'' []" "''t1''"
        "\<lparr>rid = 0, url = ''/users/me'', Authorization = Some ''Bearer t0'', retry = True\<rparr>"]
  by (simp add: getItem_def setItem_def bearer_def)

text \<open>
  A request can go out with an Authorization header while no credential is held. With an
  empty storage, a configuration that already has the header keeps it. And the gateway
  does this itself: when the refresh call resolves with the empty string as access token,
  the response interceptor sets \<^verbatim>\<open>Authorization\<close> to \<^verbatim>\<open>Bearer \<close> on the
  original request and replays it; the request interceptor finds the empty string stored,
  which \<^verbatim>\<open>if (token)\<close> does not accept, and lets the header through.
\<close>

theorem request_sent_with_header_but_no_credential:
  "getItem Map.empty ''accessToken'' = None
   \<and> Authorization (request_interceptor Map.empty
        \<lparr>rid = 0, url = ''/users/me'', Authorization = Some ''Bearer t0'', retry = False\<rparr>)
       = Some ''Bearer t0''
   \<and> getItem (localStorage (run (init Map.empty)
        [Call ''/users/me'', Response 0 (Failure (Some 401)), RefreshSettled (RefreshOk [])]))
        ''accessToken'' = Some []
   \<and> inflight (run (init Map.empty)
        [Call ''/users/me'', Response 0 (Failure (Some 401)), RefreshSettled (RefreshOk [])])
       = [\<lparr>rid = 0, url = ''/users/me'', Authorization = Some ''Bearer '', retry = True\<rparr>]"
  by (simp add: run_def init_def api_def replay_def subscriber_callback_def
      onTokenRefreshed_def addRefreshSubscriber_def on_rejected_def refresh_resolved_def
      request_interceptor_def getItem_def setItem_def bearer_def Let_def)

section \<open>Reachable states of the Refresh Coordinator\<close>

lemma request_interceptor_rid [simp]: "rid (request_interceptor ls c) = rid c"
  by (simp add: request_interceptor_def split: option.splits)

lemma request_interceptor_retry [simp]: "retry (request_interceptor ls c) = retry c"
  by (simp add: request_interceptor_def split: option.splits)

lemma fold_subscriber_callback:
  "fold (subscriber_callback token) cs g =
     g\<lparr>inflight := inflight g @ map (sent_as (localStorage g) token) cs,
       replayed := replayed g @ map (sent_as (localStorage g) token) cs\<rparr>"
  by (induction cs arbitrary: g) (simp_all add: subscriber_callback_def replay_def api_def sent_as_def)

lemma refresh_resolved_eq:
  "refresh_resolved token a g =
     g\<lparr>localStorage := setItem (localStorage g) ''accessToken'' token,
       isRefreshing := False,
       refreshSubscribers := [],
       inflight := inflight g @ map (sent_as (setItem (localStorage g) ''accessToken'' token) token) (refreshSubscribers g @ [a]),
       replayed := replayed g @ map (sent_as (setItem (localStorage g) ''accessToken'' token) token) (refreshSubscribers g @ [a])\<rparr>"
  by (simp add: refresh_resolved_def onTokenRefreshed_def fold_subscriber_callback replay_def api_def sent_as_def Let_def)

lemma sent_as_rid [simp]: "rid (sent_as ls t c) = rid c"
  by (simp add: sent_as_def)

lemma sent_as_retry [simp]: "retry (sent_as ls t c) = retry c"
  by (simp add: sent_as_def)

lemma map_rid_sent_as [simp]: "map rid (map (sent_as ls t) cs) = map rid cs"
  by (induction cs) simp_all

lemma find_SomeD: "find P xs = Some x \<Longrightarrow> x \<in> set xs \<and> P x"
  by (induction xs) (auto split: if_splits)

lemma rids_Nil [simp]: "rids [] = {}"
  by (simp add: rids_def)

lemma rids_Cons [simp]: "rids (c # cs) = insert (rid c) (rids cs)"
  by (simp add: rids_def)

lemma rids_append [simp]: "rids (xs @ ys) = rids xs \<union> rids ys"
  by (simp add: rids_def image_Un)

lemma rids_mem: "c \<in> set cs \<Longrightarrow> rid c \<in> rids cs"
  by (simp add: rids_def)

lemma rids_map_rid: "map rid xs = map rid ys \<Longrightarrow> rids xs = rids ys"
  unfolding rids_def by (metis set_map)

lemma distinct_rid_append:
  "distinct (map rid (xs @ ys)) \<longleftrightarrow>
     distinct (map rid xs) \<and> distinct (map rid ys) \<and> rids xs \<inter> rids ys = {}"
  by (simp add: rids_def)

lemma distinct_rid_snoc:
  "distinct (map rid (xs @ [c])) \<longleftrightarrow> distinct (map rid xs) \<and> rid c \<notin> rids xs"
  by (simp add: rids_def)

lemma distinct_rid_Cons:
  "distinct (map rid (c # xs)) \<longleftrightarrow> rid c \<notin> rids xs \<and> distinct (map rid xs)"
  by (simp add: rids_def)

lemma rids_remove1_subset: "rids (remove1 c cs) \<subseteq> rids cs"
  unfolding rids_def using set_remove1_subset [of c cs] by blast

lemma distinct_rid_remove1: "distinct (map rid (cs :: request_config list)) \<Longrightarrow> distinct (map rid (remove1 c cs))"
proof (induction cs)
  case Nil
  then show ?case by simp
next
  case (Cons a cs)
  have "rids (remove1 c cs) \<subseteq> rids cs" by (rule rids_remove1_subset)
  with Cons show ?case by (auto simp: distinct_rid_Cons simp del: list.map distinct.simps)
qed

lemma rid_notin_remove1:
  "distinct (map rid (cs :: request_config list)) \<Longrightarrow> c \<in> set cs \<Longrightarrow> rid c \<notin> rids (remove1 c cs)"
proof (induction cs)
  case Nil
  then show ?case by simp
next
  case (Cons a cs)
  have sub: "rids (remove1 c cs) \<subseteq> rids cs" by (rule rids_remove1_subset)
  show ?case
  proof (cases "a = c")
    case True
    with Cons.prems show ?thesis by (simp add: rids_def)
  next
    case False
    then have c: "c \<in> set cs" using Cons.prems by simp
    then have "rid c \<in> rids cs" by (rule rids_mem)
    moreover have "rid a \<notin> rids cs" using Cons.prems by (simp add: rids_def)
    ultimately have "rid a \<noteq> rid c" by metis
    moreover have "rid c \<notin> rids (remove1 c cs)"
      using Cons.IH Cons.prems c by (simp add: rids_def)
    ultimately show ?thesis using False by simp
  qed
qed

lemma okD:
  assumes "ok I S A R n"
  shows "\<forall>r\<in>rids I \<union> rids S \<union> rids A \<union> rids R. r < n"
    and "distinct (map rid I)" and "distinct (map rid S)" and "distinct (map rid A)"
    and "distinct (map rid R)"
    and "rids I \<inter> rids S = {}" and "rids I \<inter> rids A = {}" and "rids S \<inter> rids A = {}"
    and "rids S \<inter> rids R = {}" and "rids A \<inter> rids R = {}"
    and "\<forall>c\<in>set S \<union> set A \<union> set R. retry c"
    and "\<forall>c\<in>set I. retry c \<or> rid c \<notin> rids R"
  using assms unfolding ok_def by simp_all

lemma okI:
  assumes "\<forall>r\<in>rids I \<union> rids S \<union> rids A \<union> rids R. r < n"
    and "distinct (map rid I)" and "distinct (map rid S)" and "distinct (map rid A)"
    and "distinct (map rid R)"
    and "rids I \<inter> rids S = {}" and "rids I \<inter> rids A = {}" and "rids S \<inter> rids A = {}"
    and "rids S \<inter> rids R = {}" and "rids A \<inter> rids R = {}"
    and "\<forall>c\<in>set S \<union> set A \<union> set R. retry c"
    and "\<forall>c\<in>set I. retry c \<or> rid c \<notin> rids R"
  shows "ok I S A R n"
  using assms unfolding ok_def by simp

lemma ok_call:
  assumes "ok I S A R n" "rid c = n" "\<not> retry c"
  shows "ok (I @ [c]) S A R (Suc n)"
proof (rule okI)
  note D = okD [OF assms(1)]
  have fresh: "rid c \<notin> rids I" "rid c \<notin> rids S" "rid c \<notin> rids A" "rid c \<notin> rids R"
    using D(1) assms(2) by auto
  show "\<forall>r\<in>rids (I @ [c]) \<union> rids S \<union> rids A \<union> rids R. r < Suc n"
    using D(1) assms(2) by (auto simp: less_SucI)
  show "distinct (map rid (I @ [c]))"
    using D(2) fresh(1) by (simp only: distinct_rid_snoc; simp)
  show "rids (I @ [c]) \<inter> rids S = {}" using D(6) fresh(2) by simp
  show "rids (I @ [c]) \<inter> rids A = {}" using D(7) fresh(3) by simp
  show "\<forall>x\<in>set (I @ [c]). retry x \<or> rid x \<notin> rids R"
    using D(12) fresh(4) by simp
qed (use okD [OF assms(1)] in simp_all)

lemma ok_remove:
  assumes "ok I S A R n"
  shows "ok (remove1 c I) S A R n"
proof (rule okI)
  note D = okD [OF assms(1)]
  have sub: "rids (remove1 c I) \<subseteq> rids I" by (rule rids_remove1_subset)
  have sub': "set (remove1 c I) \<subseteq> set I" by (rule set_remove1_subset)
  show "\<forall>r\<in>rids (remove1 c I) \<union> rids S \<union> rids A \<union> rids R. r < n"
    using D(1) sub by blast
  show "distinct (map rid (remove1 c I))"
    using D(2) by (rule distinct_rid_remove1)
  show "rids (remove1 c I) \<inter> rids S = {}" using D(6) sub by blast
  show "rids (remove1 c I) \<inter> rids A = {}" using D(7) sub by blast
  show "\<forall>x\<in>set (remove1 c I). retry x \<or> rid x \<notin> rids R"
    using D(12) sub' by blast
qed (use okD [OF assms(1)] in simp_all)

lemma ok_wait:
  assumes "ok I S A R n" "c \<in> set I" "\<not> retry c" "rid c' = rid c" "retry c'"
  shows "ok (remove1 c I) (S @ [c']) A R n" and "ok (remove1 c I) S (A @ [c']) R n"
proof -
  note D = okD [OF ok_remove [OF assms(1), of c]]
  note D0 = okD [OF assms(1)]
  have mem: "rid c' \<in> rids I" using rids_mem [OF assms(2)] assms(4) by simp
  have gone: "rid c' \<notin> rids (remove1 c I)"
    using rid_notin_remove1 [OF D0(2) assms(2)] assms(4) by simp
  have notrep: "rid c' \<notin> rids R" using D0(12) assms(2,3,4) by auto
  have lt: "rid c' < n" using D0(1) mem by blast
  have notS: "rid c' \<notin> rids S" using D0(6) mem by blast
  have notA: "rid c' \<notin> rids A" using D0(7) mem by blast
  show "ok (remove1 c I) (S @ [c']) A R n"
  proof (rule okI)
    show "\<forall>r\<in>rids (remove1 c I) \<union> rids (S @ [c']) \<union> rids A \<union> rids R. r < n"
      using D(1) lt by simp
    show "distinct (map rid (S @ [c']))"
      using D(3) notS by (simp only: distinct_rid_snoc; simp)
    show "rids (remove1 c I) \<inter> rids (S @ [c']) = {}" using D(6) gone by simp
    show "rids (S @ [c']) \<inter> rids A = {}" using D(8) notA by simp
    show "rids (S @ [c']) \<inter> rids R = {}" using D(9) notrep by simp
    show "\<forall>x\<in>set (S @ [c']) \<union> set A \<union> set R. retry x" using D(11) assms(5) by simp
  qed (use D in simp_all)
  show "ok (remove1 c I) S (A @ [c']) R n"
  proof (rule okI)
    show "\<forall>r\<in>rids (remove1 c I) \<union> rids S \<union> rids (A @ [c']) \<union> rids R. r < n"
      using D(1) lt by simp
    show "distinct (map rid (A @ [c']))"
      using D(4) notA by (simp only: distinct_rid_snoc; simp)
    show "rids (remove1 c I) \<inter> rids (A @ [c']) = {}" using D(7) gone by simp
    show "rids S \<inter> rids (A @ [c']) = {}" using D(8) notS by simp
    show "rids (A @ [c']) \<inter> rids R = {}" using D(10) notrep by simp
    show "\<forall>x\<in>set S \<union> set (A @ [c']) \<union> set R. retry x" using D(11) assms(5) by simp
  qed (use D in simp_all)
qed

lemma ok_refresh_failed:
  assumes "ok I S (a # A) R n"
  shows "ok I [] A R n"
proof (rule okI)
  note D = okD [OF assms(1)]
  show "\<forall>r\<in>rids I \<union> rids [] \<union> rids A \<union> rids R. r < n" using D(1) by auto
  show "distinct (map rid A)" using D(4) by simp
  show "rids I \<inter> rids A = {}" using D(7) by simp
  show "rids A \<inter> rids R = {}" using D(10) by simp
  show "\<forall>x\<in>set [] \<union> set A \<union> set R. retry x" using D(11) by simp
qed (use okD [OF assms(1)] in simp_all)

lemma ok_refresh_ok:
  assumes "ok I S (a # A) R n" "map rid W = map rid (S @ [a])" "\<forall>c\<in>set W. retry c"
  shows "ok (I @ W) [] A (R @ W) n"
proof (rule okI)
  note D = okD [OF assms(1)]
  have W: "rids W = insert (rid a) (rids S)"
    using rids_map_rid [OF assms(2)] by simp
  have aS: "rid a \<notin> rids S" using D(8) by simp
  have aA: "rid a \<notin> rids A" using D(4) by (simp only: distinct_rid_Cons; simp)
  have aI: "rid a \<notin> rids I" using D(7) by simp
  have aR: "rid a \<notin> rids R" using D(10) by simp
  have SA: "rids S \<inter> rids A = {}" using D(8) by simp
  have IA: "rids I \<inter> rids A = {}" using D(7) by simp
  have AR: "rids A \<inter> rids R = {}" using D(10) by simp
  have dA: "distinct (map rid A)" using D(4) by simp
  have dW: "distinct (map rid W)"
    using D(3) aS by (simp only: assms(2) distinct_rid_snoc; simp)
  have IW: "rids I \<inter> rids W = {}" using D(6) aI by (simp add: W)
  have RW: "rids R \<inter> rids W = {}" using D(9) aR by (simp add: W) blast
  have AW: "rids A \<inter> rids W = {}" using SA aA by (simp add: W) blast
  show "\<forall>r\<in>rids (I @ W) \<union> rids [] \<union> rids A \<union> rids (R @ W). r < n"
    using D(1) by (auto simp: W)
  show "distinct (map rid (I @ W))"
    using D(2) dW IW by (simp only: distinct_rid_append; simp)
  show "distinct (map rid [])" by simp
  show "distinct (map rid A)" by (rule dA)
  show "distinct (map rid (R @ W))"
    using D(5) dW RW by (simp only: distinct_rid_append; simp)
  show "rids (I @ W) \<inter> rids [] = {}" by simp
  show "rids (I @ W) \<inter> rids A = {}" using IA AW by (simp add: Int_Un_distrib2) blast
  show "rids [] \<inter> rids A = {}" by simp
  show "rids [] \<inter> rids (R @ W) = {}" by simp
  show "rids A \<inter> rids (R @ W) = {}" using AR AW by (simp add: Int_Un_distrib)
  show "\<forall>c\<in>set [] \<union> set A \<union> set (R @ W). retry c" using D(11) assms(3) by auto
  show "\<forall>c\<in>set (I @ W). retry c \<or> rid c \<notin> rids (R @ W)"
  proof
    fix c assume c: "c \<in> set (I @ W)"
    show "retry c \<or> rid c \<notin> rids (R @ W)"
    proof (cases "c \<in> set W")
      case True
      then show ?thesis using assms(3) by simp
    next
      case False
      then have cI: "c \<in> set I" using c by simp
      then have "rid c \<in> rids I" by (rule rids_mem)
      then have "rid c \<notin> rids W" using IW by blast
      then show ?thesis using D(12) cI by auto
    qed
  qed
qed

lemma inv_init: "inv (init ls)"
  by (simp add: inv_def init_def ok_def)

lemma inv_Call: "inv g \<Longrightarrow> inv (step g (Call u))"
  unfolding inv_def by (simp add: api_def ok_call)

lemma inv_on_rejected:
  assumes "inv g" "c \<in> set (inflight g)"
  shows "inv (on_rejected status c (g\<lparr>inflight := remove1 c (inflight g)\<rparr>))"
proof (cases "status = Some 401 \<and> \<not> retry c")
  case True
  have w: "rid (c\<lparr>retry := True\<rparr>) = rid c" "retry (c\<lparr>retry := True\<rparr>)" by simp_all
  from True have nr: "\<not> retry c" by simp
  note W = ok_wait [OF assms(1) [unfolded inv_def] assms(2) nr w]
  show ?thesis
    using W unfolding inv_def
    by (simp add: on_rejected_def addRefreshSubscriber_def Let_def True)
next
  case False
  have "ok (remove1 c (inflight g)) (refreshSubscribers g) (awaiting g) (replayed g) (next_rid g)"
    using assms(1) unfolding inv_def by (rule ok_remove)
  then show ?thesis
    unfolding inv_def by (simp add: on_rejected_def False)
qed

lemma inv_Response: "inv g \<Longrightarrow> inv (step g (Response r x))"
proof (cases "find (\<lambda>c. rid c = r) (inflight g)")
  case None
  assume "inv g"
  then show ?thesis using None by simp
next
  case (Some c)
  assume g: "inv g"
  have c: "c \<in> set (inflight g)" using find_SomeD [OF Some] by simp
  show ?thesis
  proof (cases x)
    case Success
    have "ok (remove1 c (inflight g)) (refreshSubscribers g) (awaiting g) (replayed g) (next_rid g)"
      using g unfolding inv_def by (rule ok_remove)
    then show ?thesis using Some Success by (simp add: inv_def)
  next
    case (Failure status)
    then show ?thesis using Some inv_on_rejected [OF g c] by simp
  qed
qed

lemma inv_RefreshSettled: "inv g \<Longrightarrow> inv (step g (RefreshSettled x))"
proof (cases "awaiting g")
  case Nil
  assume "inv g"
  then show ?thesis using Nil by simp
next
  case (Cons a rest)
  assume "inv g"
  then have g: "ok (inflight g) (refreshSubscribers g) (a # rest) (replayed g) (next_rid g)"
    using Cons by (simp add: inv_def)
  show ?thesis
  proof (cases x)
    case (RefreshOk token)
    let ?W = "map (sent_as (setItem (localStorage g) ''accessToken'' token) token)
                (refreshSubscribers g @ [a])"
    have 1: "map rid ?W = map rid (refreshSubscribers g @ [a])" by (rule map_rid_sent_as)
    have 2: "\<forall>c\<in>set ?W. retry c" using okD(11) [OF g] by auto
    show ?thesis
      using ok_refresh_ok [OF g 1 2] Cons RefreshOk
      by (simp add: inv_def refresh_resolved_eq)
  next
    case RefreshFailed
    show ?thesis
      using ok_refresh_failed [OF g] Cons RefreshFailed
      by (simp add: inv_def refresh_rejected_def)
  qed
qed

lemma inv_step: "inv g \<Longrightarrow> inv (step g e)"
  by (cases e) (simp_all only: inv_Call inv_Response inv_RefreshSettled)

lemma inv_run: "inv g \<Longrightarrow> inv (run g evs)"
  unfolding run_def by (induction evs arbitrary: g) (simp_all add: inv_step)

text \<open>
  A request that was issued, is not pending and has not been settled is never settled by
  any later event: nothing in the state refers to its promise any more.
\<close>

lemma pending_rids:
  "pending g r \<longleftrightarrow> r \<in> rids (inflight g) \<union> rids (refreshSubscribers g) \<union> rids (awaiting g)"
  by (auto simp: pending_def rids_def)

lemma next_rid_on_rejected [simp]: "next_rid (on_rejected status c g) = next_rid g"
  by (simp add: on_rejected_def addRefreshSubscriber_def Let_def)

lemma next_rid_step: "next_rid g \<le> next_rid (step g e)"
proof (cases e)
  case (Call u)
  then show ?thesis by (simp add: api_def)
next
  case (Response r x)
  then show ?thesis by (simp add: Let_def split: option.splits response.splits)
next
  case (RefreshSettled x)
  then show ?thesis
    by (simp add: Let_def refresh_resolved_eq refresh_rejected_def
        split: list.splits refresh_result.splits)
qed

lemma pending_on_rejected:
  assumes "c \<in> set (inflight g)"
    and "pending (on_rejected status c (g\<lparr>inflight := remove1 c (inflight g)\<rparr>)) r"
  shows "pending g r"
proof -
  have sub: "rids (remove1 c (inflight g)) \<subseteq> rids (inflight g)" by (rule rids_remove1_subset)
  have mem: "rid c \<in> rids (inflight g)" using assms(1) by (rule rids_mem)
  show ?thesis
    using assms(2) sub mem
    by (auto simp: pending_rids on_rejected_def addRefreshSubscriber_def Let_def split: if_splits)
qed

lemma settled_on_rejected:
  assumes "c \<in> set (inflight g)"
    and "r \<in> fst ` set (settled (on_rejected status c (g\<lparr>inflight := remove1 c (inflight g)\<rparr>)))"
  shows "r \<in> fst ` set (settled g) \<or> pending g r"
proof -
  have mem: "rid c \<in> rids (inflight g)" using assms(1) by (rule rids_mem)
  show ?thesis
    using assms(2) mem
    by (auto simp: pending_rids on_rejected_def addRefreshSubscriber_def Let_def split: if_splits)
qed

lemma pending_step:
  assumes "pending (step g e) r" "r < next_rid g"
  shows "pending g r"
proof (cases e)
  case (Call u)
  then show ?thesis using assms by (auto simp: pending_rids api_def)
next
  case (Response r' x)
  show ?thesis
  proof (cases "find (\<lambda>c. rid c = r') (inflight g)")
    case None
    then show ?thesis using assms Response by simp
  next
    case (Some c)
    have c: "c \<in> set (inflight g)" using find_SomeD [OF Some] by simp
    have sub: "rids (remove1 c (inflight g)) \<subseteq> rids (inflight g)"
      by (rule rids_remove1_subset)
    show ?thesis
    proof (cases x)
      case Success
      then show ?thesis using assms(1) Response Some sub by (auto simp: pending_rids)
    next
      case (Failure status)
      then show ?thesis using assms(1) Response Some pending_on_rejected [OF c] by simp
    qed
  qed
next
  case (RefreshSettled x)
  show ?thesis
  proof (cases "awaiting g")
    case Nil
    then show ?thesis using assms RefreshSettled by simp
  next
    case (Cons a rest)
    show ?thesis
    proof (cases x)
      case (RefreshOk token)
      have "rids (map (sent_as (setItem (localStorage g) ''accessToken'' token) token)
                (refreshSubscribers g @ [a])) = rids (refreshSubscribers g @ [a])"
        by (rule rids_map_rid) (rule map_rid_sent_as)
      then show ?thesis
        using assms(1) RefreshSettled Cons RefreshOk
        by (auto simp: pending_rids refresh_resolved_eq)
    next
      case RefreshFailed
      then show ?thesis
        using assms(1) RefreshSettled Cons
        by (auto simp: pending_rids refresh_rejected_def)
    qed
  qed
qed

lemma settled_step:
  assumes "r \<in> fst ` set (settled (step g e))"
  shows "r \<in> fst ` set (settled g) \<or> pending g r"
proof (cases e)
  case (Call u)
  then show ?thesis using assms by (simp add: api_def)
next
  case (Response r' x)
  show ?thesis
  proof (cases "find (\<lambda>c. rid c = r') (inflight g)")
    case None
    then show ?thesis using assms Response by simp
  next
    case (Some c)
    have c: "c \<in> set (inflight g)" and r': "rid c = r'" using find_SomeD [OF Some] by simp_all
    have mem: "rid c \<in> rids (inflight g)" using c by (rule rids_mem)
    show ?thesis
    proof (cases x)
      case Success
      then show ?thesis using assms Response Some mem r' by (auto simp: pending_rids)
    next
      case (Failure status)
      then show ?thesis using assms Response Some settled_on_rejected [OF c] by simp
    qed
  qed
next
  case (RefreshSettled x)
  show ?thesis
  proof (cases "awaiting g")
    case Nil
    then show ?thesis using assms RefreshSettled by simp
  next
    case (Cons a rest)
    show ?thesis
    proof (cases x)
      case (RefreshOk token)
      then show ?thesis
        using assms RefreshSettled Cons by (simp add: refresh_resolved_eq)
    next
      case RefreshFailed
      then show ?thesis
        using assms RefreshSettled Cons
        by (auto simp: pending_rids refresh_rejected_def)
    qed
  qed
qed

lemma never_settled:
  assumes "r < next_rid g" "\<not> pending g r" "r \<notin> fst ` set (settled g)"
  shows "r \<notin> fst ` set (settled (run g evs)) \<and> \<not> pending (run g evs) r"
  using assms
proof (induction evs arbitrary: g)
  case Nil
  then show ?case by (simp add: run_def)
next
  case (Cons e evs)
  have 1: "r < next_rid (step g e)" using Cons.prems(1) next_rid_step [of g e] by simp
  have 2: "\<not> pending (step g e) r" using Cons.prems(1,2) pending_step by blast
  have 3: "r \<notin> fst ` set (settled (step g e))" using Cons.prems(2,3) settled_step by blast
  show ?case using Cons.IH [OF 1 2 3] by (simp add: run_def)
qed

text \<open>Unfolding rules for evaluating a run on concrete events.\<close>

lemmas ev_defs = run_def init_def api_def replay_def subscriber_callback_def onTokenRefreshed_def
  addRefreshSubscriber_def on_rejected_def refresh_resolved_def refresh_rejected_def
  request_interceptor_def getItem_def setItem_def removeItem_def bearer_def Let_def

lemmas legacy_defs = run_legacy_def init_def api_def replay_def on_rejected_legacy_def
  refresh_resolved_legacy_def refresh_rejected_legacy_def
  request_interceptor_def getItem_def setItem_def removeItem_def bearer_def Let_def

section \<open>Refresh Coordinator: one retry per request\<close>

text \<open>
  C2 (for the coordinator of frontend/lib/api.ts). The rejection handler starts a refresh
  call or queues the request only for a 401 on a request that is not marked
  \<^verbatim>\<open>_retry\<close>. For a marked request (the replay carries the mark) any further error,
  a 401 included, changes nothing but the caller's promise, which is rejected with that
  error. In every state reachable from the initial one, whatever the events, every
  replayed request is marked and no request has been replayed twice.
\<close>

theorem retry_at_most_once:
  "(refreshCalls (on_rejected status c g) \<noteq> refreshCalls g
      \<or> refreshSubscribers (on_rejected status c g) \<noteq> refreshSubscribers g
      \<or> awaiting (on_rejected status c g) \<noteq> awaiting g
    \<longrightarrow> status = Some 401 \<and> \<not> retry c)
   \<and> (retry c \<longrightarrow>
        on_rejected status c g = g\<lparr>settled := settled g @ [(rid c, RejectedStatus status)]\<rparr>)
   \<and> (\<forall>c'\<in>set (replayed (run (init ls) evs)). retry c')
   \<and> distinct (map rid (replayed (run (init ls) evs)))"
proof -
  have I: "inv (run (init ls) evs)" by (rule inv_run [OF inv_init])
  have 1: "refreshCalls (on_rejected status c g) \<noteq> refreshCalls g
      \<or> refreshSubscribers (on_rejected status c g) \<noteq> refreshSubscribers g
      \<or> awaiting (on_rejected status c g) \<noteq> awaiting g
    \<longrightarrow> status = Some 401 \<and> \<not> retry c"
    by (auto simp: on_rejected_def)
  have 2: "retry c \<longrightarrow>
        on_rejected status c g = g\<lparr>settled := settled g @ [(rid c, RejectedStatus status)]\<rparr>"
    by (simp add: on_rejected_def)
  have 3: "\<forall>c'\<in>set (replayed (run (init ls) evs)). retry c'"
    using okD(11) [OF I [unfolded inv_def]] by blast
  have 4: "distinct (map rid (replayed (run (init ls) evs)))"
    using okD(5) [OF I [unfolded inv_def]] .
  show ?thesis using 1 2 3 4 by blast
qed

text \<open>
  The theorem at a request that fails with 401, is replayed after a successful refresh,
  and fails with 401 again: one replay, and the second 401 reaches the caller.
\<close>

theorem retry_at_most_once_witness:
  "refreshCalls (on_rejected (Some 401)
       \<lparr>rid = 0, url = ''/users/me'', Authorization = None, retry = False\<rparr> (init Map.empty))
     \<noteq> refreshCalls (init Map.empty)
   \<and> \<not> retry \<lparr>rid = 0, url = ''/users/me'', Authorization = None, retry = False\<rparr>
   \<and> retry \<lparr>rid = 0, url = ''/users/me'', Authorization = Some ''Bearer t1'', retry = True\<rparr>
   \<and> settled (on_rejected (Some 401)
       \<lparr>rid = 0, url = ''/users/me'', Authorization = Some ''Bearer t1'', retry = True\<rparr>
       (init Map.empty)) = [(0, RejectedStatus (Some 401))]
   \<and> refreshCalls (on_rejected (Some 401)
       \<lparr>rid = 0, url = ''/users/me'', Authorization = Some ''Bearer t1'', retry = True\<rparr>
       (init Map.empty)) = 0
   \<and> replayed (run (init Map.empty)
         [Call ''/users/me'', Response 0 (Failure (Some 401)), RefreshSettled (RefreshOk ''t1''),
          Response 0 (Failure (Some 401))])
       = [\<lparr>rid = 0, url = ''/users/me'', Authorization = Some ''Bearer t1'', retry = True\<rparr>]
   \<and> settled (run (init Map.empty)
         [Call ''/users/me'', Response 0 (Failure (Some 401)), RefreshSettled (RefreshOk ''t1''),
          Response 0 (Failure (Some 401))]) = [(0, RejectedStatus (Some 401))]
   \<and> distinct (map rid (replayed (run (init Map.empty)
         [Call ''/users/me'', Response 0 (Failure (Some 401)), RefreshSettled (RefreshOk ''t1''),
          Response 0 (Failure (Some 401))])))"
  using retry_at_most_once
      [of "Some 401" "\<lparr>rid = 0, url = ''/users/me'', Authorization = None, retry = False\<rparr>"
          "init Map.empty" Map.empty
          "[Call ''/users/me'', Response 0 (Failure (Some 401)),
            RefreshSettled (RefreshOk ''t1''), Response 0 (Failure (Some 401))]"]
    retry_at_most_once
      [of "Some 401"
          "\<lparr>rid = 0, url = ''/users/me'', Authorization = Some ''Bearer t1'', retry = True\<rparr>"
          "init Map.empty" Map.empty "[]"]
  by (simp add: ev_defs)

text \<open>
  The earlier interceptor (part 005) has no mark: a request whose replay fails with 401
  again starts a second refresh call and is replayed a second time.
\<close>

theorem legacy_interceptor_replays_again:
  "map rid (replayed (run_legacy (init Map.empty)
      [Call ''/users/me'',
       Response 0 (Failure (Some 401)), RefreshSettled (RefreshOk ''t1''),
       Response 0 (Failure (Some 401)), RefreshSettled (RefreshOk ''t2'')])) = [0, 0]
   \<and> refreshCalls (run_legacy (init Map.empty)
      [Call ''/users/me'',
       Response 0 (Failure (Some 401)), RefreshSettled (RefreshOk ''t1''),
       Response 0 (Failure (Some 401)), RefreshSettled (RefreshOk ''t2'')]) = 2
   \<and> settled (run_legacy (init Map.empty)
      [Call ''/users/me'',
       Response 0 (Failure (Some 401)), RefreshSettled (RefreshOk ''t1''),
       Response 0 (Failure (Some 401)), RefreshSettled (RefreshOk ''t2'')]) = []"
  by (simp add: legacy_defs)

section \<open>Refresh Coordinator: concurrent 401 responses\<close>

text \<open>
  Between two settlements of the refresh call, whatever requests are issued and whatever
  responses arrive, at most one refresh call is made and nothing is replayed; once a
  call is in flight no further one is made. When the refresh resolves, the queued
  requests and the triggering one are replayed, each with the renewed credential as its
  bearer header.
\<close>

lemma step_within_window:
  assumes "\<forall>x. e \<noteq> RefreshSettled x"
  shows "replayed (step g e) = replayed g
       \<and> (isRefreshing g \<longrightarrow> isRefreshing (step g e) \<and> refreshCalls (step g e) = refreshCalls g)
       \<and> (\<not> isRefreshing g \<longrightarrow>
            (isRefreshing (step g e) \<and> refreshCalls (step g e) = Suc (refreshCalls g))
            \<or> (\<not> isRefreshing (step g e) \<and> refreshCalls (step g e) = refreshCalls g))"
proof (cases e)
  case (Call u)
  then show ?thesis by (simp add: api_def)
next
  case (Response r x)
  then show ?thesis
    by (simp add: on_rejected_def addRefreshSubscriber_def Let_def
        split: option.splits response.splits)
next
  case (RefreshSettled x)
  then show ?thesis using assms by simp
qed

lemma one_refresh_call_per_window:
  assumes "\<forall>e\<in>set evs. \<forall>x. e \<noteq> RefreshSettled x"
  shows "replayed (run g evs) = replayed g
       \<and> refreshCalls (run g evs) \<le> refreshCalls g + (if isRefreshing g then 0 else 1)
       \<and> (refreshCalls (run g evs) = Suc (refreshCalls g) \<longrightarrow> isRefreshing (run g evs))
       \<and> (isRefreshing g \<longrightarrow> isRefreshing (run g evs))"
  using assms
proof (induction evs arbitrary: g)
  case Nil
  then show ?case by (simp add: run_def)
next
  case (Cons e evs)
  have e: "\<forall>x. e \<noteq> RefreshSettled x" using Cons.prems by simp
  have evs: "\<forall>e\<in>set evs. \<forall>x. e \<noteq> RefreshSettled x" using Cons.prems by simp
  note S = step_within_window [OF e, of g]
  note IH = Cons.IH [OF evs, of "step g e"]
  have r: "run g (e # evs) = run (step g e) evs" by (simp add: run_def)
  show ?case
  proof (cases "isRefreshing g")
    case True
    then show ?thesis using S IH unfolding r by simp
  next
    case False
    then show ?thesis using S IH unfolding r by (auto split: if_splits)
  qed
qed

lemma Authorization_sent_as:
  "Authorization (sent_as (setItem ls ''accessToken'' token) token c) = Some (bearer token)"
  by (simp add: sent_as_def request_interceptor_def getItem_def setItem_def)

lemma no_refresh_call_while_refreshing:
  "isRefreshing g \<Longrightarrow>
     refreshCalls (step g (Response r x)) = refreshCalls g
     \<and> isRefreshing (step g (Response r x))
     \<and> replayed (step g (Response r x)) = replayed g"
  by (simp add: on_rejected_def addRefreshSubscriber_def Let_def
      split: option.splits response.splits)

lemma replays_carry_renewed_credential:
  "replayed (refresh_resolved token a g) =
     replayed g @ map (sent_as (setItem (localStorage g) ''accessToken'' token) token)
                      (refreshSubscribers g @ [a])
   \<and> list_all (\<lambda>c. Authorization c = Some (bearer token))
        (map (sent_as (setItem (localStorage g) ''accessToken'' token) token)
             (refreshSubscribers g @ [a]))"
  by (simp add: refresh_resolved_eq list_all_iff Authorization_sent_as)

text \<open>
  C1. Two requests fail with 401 while the credential is expired. One refresh call is
  made and nothing is replayed before it settles. When it resolves with a new credential
  both requests are replayed with it. When it fails, the triggering request is rejected,
  but the queued request is neither replayed nor rejected, and no later event settles it:
  it does not complete.
\<close>

theorem concurrent_401_then_refresh_failure:
  "refreshCalls (run (init (Map.empty(''accessToken'' \<mapsto> ''old'')))
       [Call ''/a'', Call ''/b'',
        Response 0 (Failure (Some 401)), Response 1 (Failure (Some 401))]) = 1
   \<and> replayed (run (init (Map.empty(''accessToken'' \<mapsto> ''old'')))
       [Call ''/a'', Call ''/b'',
        Response 0 (Failure (Some 401)), Response 1 (Failure (Some 401))]) = []
   \<and> replayed (run (init (Map.empty(''accessToken'' \<mapsto> ''old'')))
       [Call ''/a'', Call ''/b'',
        Response 0 (Failure (Some 401)), Response 1 (Failure (Some 401)),
        RefreshSettled (RefreshOk ''new'')])
      = [\<lparr>rid = 1, url = ''/b'', Authorization = Some ''Bearer new'', retry = True\<rparr>,
         \<lparr>rid = 0, url = ''/a'', Authorization = Some ''Bearer new'', retry = True\<rparr>]
   \<and> refreshCalls (run (init (Map.empty(''accessToken'' \<mapsto> ''old'')))
       [Call ''/a'', Call ''/b'',
        Response 0 (Failure (Some 401)), Response 1 (Failure (Some 401)),
        RefreshSettled RefreshFailed]) = 1
   \<and> settled (run (init (Map.empty(''accessToken'' \<mapsto> ''old'')))
       [Call ''/a'', Call ''/b'',
        Response 0 (Failure (Some 401)), Response 1 (Failure (Some 401)),
        RefreshSettled RefreshFailed]) = [(0, RejectedRefresh)]
   \<and> replayed (run (init (Map.empty(''accessToken'' \<mapsto> ''old'')))
       [Call ''/a'', Call ''/b'',
        Response 0 (Failure (Some 401)), Response 1 (Failure (Some 401)),
        RefreshSettled RefreshFailed]) = []
   \<and> (\<forall>evs. 1 \<notin> fst ` set (settled (run (run (init (Map.empty(''accessToken'' \<mapsto> ''old'')))
       [Call ''/a'', Call ''/b'',
        Response 0 (Failure (Some 401)), Response 1 (Failure (Some 401)),
        RefreshSettled RefreshFailed]) evs)))"
proof -
  let ?g = "run (init (Map.empty(''accessToken'' \<mapsto> ''old'')))
       [Call ''/a'', Call ''/b'',
        Response 0 (Failure (Some 401)), Response 1 (Failure (Some 401)),
        RefreshSettled RefreshFailed]"
  have a: "1 < next_rid ?g" by (simp add: ev_defs)
  have b: "\<not> pending ?g 1" by (simp add: ev_defs pending_def)
  have c: "1 \<notin> fst ` set (settled ?g)" by (simp add: ev_defs)
  have never: "\<forall>evs. 1 \<notin> fst ` set (settled (run ?g evs))"
    using never_settled [OF a b c] by blast
  show ?thesis
    by (intro conjI never) (simp_all add: ev_defs)
qed

text \<open>
  C4. Three requests fail with 401 and the refresh call fails. The stored credential is
  removed, the flag is cleared, \<^verbatim>\<open>auth:tokenExpired\<close> is dispatched and the
  triggering request is rejected with the refresh error. The queue is emptied, but the
  two queued callers are not rejected: their promises are settled by no later event.
\<close>

theorem refresh_failure_drops_queued_callers:
  "getItem (localStorage (run (init (Map.empty(''accessToken'' \<mapsto> ''old'')))
       [Call ''/a'', Call ''/b'', Call ''/c'',
        Response 0 (Failure (Some 401)), Response 1 (Failure (Some 401)),
        Response 2 (Failure (Some 401)), RefreshSettled RefreshFailed])) ''accessToken'' = None
   \<and> \<not> isRefreshing (run (init (Map.empty(''accessToken'' \<mapsto> ''old'')))
       [Call ''/a'', Call ''/b'', Call ''/c'',
        Response 0 (Failure (Some 401)), Response 1 (Failure (Some 401)),
        Response 2 (Failure (Some 401)), RefreshSettled RefreshFailed])
   \<and> dispatched (run (init (Map.empty(''accessToken'' \<mapsto> ''old'')))
       [Call ''/a'', Call ''/b'', Call ''/c'',
        Response 0 (Failure (Some 401)), Response 1 (Failure (Some 401)),
        Response 2 (Failure (Some 401)), RefreshSettled RefreshFailed]) = [''auth:tokenExpired'']
   \<and> map rid (refreshSubscribers (run (init (Map.empty(''accessToken'' \<mapsto> ''old'')))
       [Call ''/a'', Call ''/b'', Call ''/c'',
        Response 0 (Failure (Some 401)), Response 1 (Failure (Some 401)),
        Response 2 (Failure (Some 401))])) = [1, 2]
   \<and> refreshSubscribers (run (init (Map.empty(''accessToken'' \<mapsto> ''old'')))
       [Call ''/a'', Call ''/b'', Call ''/c'',
        Response 0 (Failure (Some 401)), Response 1 (Failure (Some 401)),
        Response 2 (Failure (Some 401)), RefreshSettled RefreshFailed]) = []
   \<and> settled (run (init (Map.empty(''accessToken'' \<mapsto> ''old'')))
       [Call ''/a'', Call ''/b'', Call ''/c'',
        Response 0 (Failure (Some 401)), Response 1 (Failure (Some 401)),
        Response 2 (Failure (Some 401)), RefreshSettled RefreshFailed]) = [(0, RejectedRefresh)]
   \<and> (\<forall>evs. 1 \<notin> fst ` set (settled (run (run (init (Map.empty(''accessToken'' \<mapsto> ''old'')))
       [Call ''/a'', Call ''/b'', Call ''/c'',
        Response 0 (Failure (Some 401)), Response 1 (Failure (Some 401)),
        Response 2 (Failure (Some 401)), RefreshSettled RefreshFailed]) evs))
          \<and> 2 \<notin> fst ` set (settled (run (run (init (Map.empty(''accessToken'' \<mapsto> ''old'')))
       [Call ''/a'', Call ''/b'', Call ''/c'',
        Response 0 (Failure (Some 401)), Response 1 (Failure (Some 401)),
        Response 2 (Failure (Some 401)), RefreshSettled RefreshFailed]) evs)))"
proof -
  let ?g = "run (init (Map.empty(''accessToken'' \<mapsto> ''old'')))
       [Call ''/a'', Call ''/b'', Call ''/c'',
        Response 0 (Failure (Some 401)), Response 1 (Failure (Some 401)),
        Response 2 (Failure (Some 401)), RefreshSettled RefreshFailed]"
  have n: "next_rid ?g = 3" by (simp add: ev_defs)
  have p: "\<not> pending ?g 1" "\<not> pending ?g 2" by (simp_all add: ev_defs pending_def)
  have s: "settled ?g = [(0, RejectedRefresh)]" by (simp add: ev_defs)
  have never: "\<forall>evs. 1 \<notin> fst ` set (settled (run ?g evs))
                  \<and> 2 \<notin> fst ` set (settled (run ?g evs))"
    using never_settled [of 1 ?g] never_settled [of 2 ?g] n p s by simp
  show ?thesis
    by (intro conjI never s) (simp_all add: ev_defs)
qed

section \<open>Session Context\<close>

text \<open>
  C10. The Session Context starts loading. However the startup probe ends, the loading
  flag is false afterwards. After a resolved probe the cached identity is the response's
  data; after a rejected one it is null and the context is unauthenticated, and the
  resulting state does not depend on the error: a transport failure leaves the same state
  as a 401.
\<close>

theorem checkAuthStatus_always_ends_loading:
  "isLoading (AuthProvider_initial ls)
   \<and> \<not> isLoading (checkAuthStatus probe s)
   \<and> user (checkAuthStatus (Resolved d) s) = d
   \<and> user (checkAuthStatus (Rejected e) s) = None
   \<and> \<not> isAuthenticated (checkAuthStatus (Rejected e) s)
   \<and> checkAuthStatus (Rejected (ApiError None m)) s
       = checkAuthStatus (Rejected (ApiError (Some 401) m')) s"
  by (simp add: checkAuthStatus_def isAuthenticated_def AuthProvider_initial_def
      split: api_result.splits)

text \<open>
  C3 (as the code has it). When the call to the logout endpoint resolves, logout resolves,
  the cached identity and the stored access credential are cleared and the context is
  unauthenticated. When the call is rejected, logout rejects with the same error and
  changes nothing.
\<close>

theorem logout_clears_when_call_succeeds:
  "fst (logout (Resolved x) s) = Resolved ()
   \<and> user (snd (logout (Resolved x) s)) = None
   \<and> getItem (localStorage (snd (logout (Resolved x) s))) ''accessToken'' = None
   \<and> \<not> isAuthenticated (snd (logout (Resolved x) s))
   \<and> logout (Rejected e) s = (Rejected e, s)"
  by (simp add: logout_def isAuthenticated_def getItem_def removeItem_def)

text \<open>
  A logout whose request gets no response: the gateway rejects the call and leaves the
  storage alone, and after \<^verbatim>\<open>logout\<close> the identity is still cached and the access
  credential is still stored.
\<close>

theorem logout_network_failure_keeps_session:
  "settled (run (init (Map.empty(''accessToken'' \<mapsto> ''t1'')))
       [Call ''/users/logout'', Response 0 (Failure None)]) = [(0, RejectedStatus None)]
   \<and> getItem (localStorage (run (init (Map.empty(''accessToken'' \<mapsto> ''t1'')))
       [Call ''/users/logout'', Response 0 (Failure None)])) ''accessToken'' = Some ''t1''
   \<and> isAuthenticated (snd (logout (Rejected (ApiError None None))
        \<lparr>localStorage = Map.empty(''accessToken'' \<mapsto> ''t1''),
         user = Some \<lparr>user_id = ''1'', user_username = ''alice'', user_email = ''a@x.org'',
                      user_fullName = ''Alice'', user_avatar = ''a.png'',
                      user_coverImage = None, createdAt = ''d0'', updatedAt = ''d0''\<rparr>,
         isLoading = False\<rparr>))
   \<and> getItem (localStorage (snd (logout (Rejected (ApiError None None))
        \<lparr>localStorage = Map.empty(''accessToken'' \<mapsto> ''t1''),
         user = Some \<lparr>user_id = ''1'', user_username = ''alice'', user_email = ''a@x.org'',
                      user_fullName = ''Alice'', user_avatar = ''a.png'',
                      user_coverImage = None, createdAt = ''d0'', updatedAt = ''d0''\<rparr>,
         isLoading = False\<rparr>))) ''accessToken'' = Some ''t1''"
  by (simp add: ev_defs logout_def isAuthenticated_def)



section \<open>Signup form\<close>

lemma validateForm_iff:
  "validateForm formData \<longleftrightarrow>
     username formData \<noteq> [] \<and> email formData \<noteq> [] \<and> password formData \<noteq> []
     \<and> fullName formData \<noteq> [] \<and> avatar formData \<noteq> None"
  by (simp add: validateForm_def newErrors_def)

text \<open>
  C8. When the username, the email, the password or the full name is empty, or no avatar
  is chosen, validation fails and \<^verbatim>\<open>handleSubmit\<close> posts nothing and leaves the
  session as it was. When all five are present, the multipart body (with the avatar part)
  is posted to the registration endpoint, and when the endpoint answers with an identity
  and an access credential, that identity becomes the cached identity, the credential is
  stored, and the page moves to the dashboard.
\<close>

theorem signup_validated_before_submission:
  "(username formData = [] \<or> email formData = [] \<or> password formData = []
      \<or> fullName formData = [] \<or> avatar formData = None
    \<longrightarrow> \<not> validateForm formData
        \<and> newErrors formData \<noteq> []
        \<and> posted (handleSubmit formData server p) = posted p
        \<and> user (handleSubmit formData server p) = user p
        \<and> localStorage (handleSubmit formData server p) = localStorage p
        \<and> pushed (handleSubmit formData server p) = pushed p)
   \<and> (username formData \<noteq> [] \<and> email formData \<noteq> [] \<and> password formData \<noteq> []
      \<and> fullName formData \<noteq> [] \<and> avatar formData = Some f
    \<longrightarrow> validateForm formData
        \<and> posted (handleSubmit formData server p)
            = posted p @ [(''/users/register'', formDataToSend formData)]
        \<and> (''avatar'', Blob f) \<in> set (formDataToSend formData)
        \<and> (server (formDataToSend formData) = Resolved (u, accessToken)
            \<longrightarrow> user (handleSubmit formData server p) = Some u
                \<and> isAuthenticated (handleSubmit formData server p)
                \<and> getItem (localStorage (handleSubmit formData server p)) ''accessToken''
                    = Some accessToken
                \<and> pushed (handleSubmit formData server p) = pushed p @ [''/dashboard'']))"
proof (intro conjI impI)
  assume missing: "username formData = [] \<or> email formData = [] \<or> password formData = []
      \<or> fullName formData = [] \<or> avatar formData = None"
  then have nv: "\<not> validateForm formData" by (auto simp: validateForm_iff)
  show "\<not> validateForm formData" by (rule nv)
  show "newErrors formData \<noteq> []" using nv by (simp add: validateForm_def)
  show "posted (handleSubmit formData server p) = posted p"
    using nv by (simp add: handleSubmit_def)
  show "user (handleSubmit formData server p) = user p"
    using nv by (simp add: handleSubmit_def)
  show "localStorage (handleSubmit formData server p) = localStorage p"
    using nv by (simp add: handleSubmit_def)
  show "pushed (handleSubmit formData server p) = pushed p"
    using nv by (simp add: handleSubmit_def)
next
  assume present: "username formData \<noteq> [] \<and> email formData \<noteq> [] \<and> password formData \<noteq> []
      \<and> fullName formData \<noteq> [] \<and> avatar formData = Some f"
  then have v: "validateForm formData" by (simp add: validateForm_iff)
  show "validateForm formData" by (rule v)
  show "posted (handleSubmit formData server p)
            = posted p @ [(''/users/register'', formDataToSend formData)]"
    using v by (simp add: handleSubmit_def signup_def Let_def
        split: api_result.splits api_error.splits prod.splits)
  show "(''avatar'', Blob f) \<in> set (formDataToSend formData)"
    using present by (simp add: formDataToSend_def)
next
  assume present: "username formData \<noteq> [] \<and> email formData \<noteq> [] \<and> password formData \<noteq> []
      \<and> fullName formData \<noteq> [] \<and> avatar formData = Some f"
    and ok: "server (formDataToSend formData) = Resolved (u, accessToken)"
  from present have v: "validateForm formData" by (simp add: validateForm_iff)
  have eq: "handleSubmit formData server p =
      p\<lparr>localStorage := setItem (localStorage p) ''accessToken'' accessToken,
        user := Some u,
        errors := newErrors formData,
        isLoading_form := False,
        posted := posted p @ [(''/users/register'', formDataToSend formData)],
        pushed := pushed p @ [''/dashboard'']\<rparr>"
    using v ok by (simp add: handleSubmit_def signup_def Let_def)
  show "user (handleSubmit formData server p) = Some u" by (simp add: eq)
  show "isAuthenticated (handleSubmit formData server p)"
    by (simp add: eq isAuthenticated_def)
  show "getItem (localStorage (handleSubmit formData server p)) ''accessToken'' = Some accessToken"
    by (simp add: eq getItem_def setItem_def)
  show "pushed (handleSubmit formData server p) = pushed p @ [''/dashboard'']"
    by (simp add: eq)
qed

text \<open>
  The theorem at a form without an avatar and at the same form with one, against an
  endpoint that accepts every registration.
\<close>

theorem signup_validated_before_submission_witness:
  "avatar \<lparr>username = ''alice'', email = ''a@x.org'', password = ''pw'', fullName = ''Alice'',
            avatar = None, coverImage = None\<rparr> = None
   \<and> \<not> validateForm \<lparr>username = ''alice'', email = ''a@x.org'', password = ''pw'',
            fullName = ''Alice'', avatar = None, coverImage = None\<rparr>
   \<and> posted (handleSubmit \<lparr>username = ''alice'', email = ''a@x.org'', password = ''pw'',
            fullName = ''Alice'', avatar = None, coverImage = None\<rparr>
         (\<lambda>body. Resolved (\<lparr>user_id = ''1'', user_username = ''alice'', user_email = ''a@x.org'',
          user_fullName = ''Alice'', user_avatar = ''a.png'', user_coverImage = None,
          createdAt = ''d0'', updatedAt = ''d0''\<rparr>, ''t1''))
         \<lparr>localStorage = Map.empty, user = None, isLoading = False, errors = [],
          isLoading_form = False, posted = [], pushed = []\<rparr>) = []
   \<and> validateForm \<lparr>username = ''alice'', email = ''a@x.org'', password = ''pw'',
            fullName = ''Alice'', avatar = Some ''a.png'', coverImage = None\<rparr>
   \<and> posted (handleSubmit \<lparr>username = ''alice'', email = ''a@x.org'', password = ''pw'',
            fullName = ''Alice'', avatar = Some ''a.png'', coverImage = None\<rparr>
         (\<lambda>body. Resolved (\<lparr>user_id = ''1'', user_username = ''alice'', user_email = ''a@x.org'',
          user_fullName = ''Alice'', user_avatar = ''a.png'', user_coverImage = None,
          createdAt = ''d0'', updatedAt = ''d0''\<rparr>, ''t1''))
         \<lparr>localStorage = Map.empty, user = None, isLoading = False, errors = [],
          isLoading_form = False, posted = [], pushed = []\<rparr>)
       = [(''/users/register'',
           [(''username'', Text ''alice''), (''email'', Text ''a@x.org''),
            (''password'', Text ''pw''), (''fullName'', Text ''Alice''),
            (''avatar'', Blob ''a.png'')])]
   \<and> user (handleSubmit \<lparr>username = ''alice'', email = ''a@x.org'', password = ''pw'',
            fullName = ''Alice'', avatar = Some ''a.png'', coverImage = None\<rparr>
         (\<lambda>body. Resolved (\<lparr>user_id = ''1'', user_username = ''alice'', user_email = ''a@x.org'',
          user_fullName = ''Alice'', user_avatar = ''a.png'', user_coverImage = None,
          createdAt = ''d0'', updatedAt = ''d0''\<rparr>, ''t1''))
         \<lparr>localStorage = Map.empty, user = None, isLoading = False, errors = [],
          isLoading_form = False, posted = [], pushed = []\<rparr>) = Some \<lparr>user_id = ''1'', user_username = ''alice'', user_email = ''a@x.org'',
          user_fullName = ''Alice'', user_avatar = ''a.png'', user_coverImage = None,
          createdAt = ''d0'', updatedAt = ''d0''\<rparr>"
  using signup_validated_before_submission
      [of "\<lparr>username = ''alice'', email = ''a@x.org'', password = ''pw'', fullName = ''Alice'',
            avatar = None, coverImage = None\<rparr>"
          "\<lambda>body. Resolved (\<lparr>user_id = ''1'', user_username = ''alice'', user_email = ''a@x.org'',
          user_fullName = ''Alice'', user_avatar = ''a.png'', user_coverImage = None,
          createdAt = ''d0'', updatedAt = ''d0''\<rparr>, ''t1'')"
          "\<lparr>localStorage = Map.empty, user = None, isLoading = False, errors = [],
            isLoading_form = False, posted = [], pushed = []\<rparr>"
          "''a.png''" "\<lparr>user_id = ''1'', user_username = ''alice'', user_email = ''a@x.org'',
          user_fullName = ''Alice'', user_avatar = ''a.png'', user_coverImage = None,
          createdAt = ''d0'', updatedAt = ''d0''\<rparr>" "''t1''"]
    signup_validated_before_submission
      [of "\<lparr>username = ''alice'', email = ''a@x.org'', password = ''pw'', fullName = ''Alice'',
            avatar = Some ''a.png'', coverImage = None\<rparr>"
          "\<lambda>body. Resolved (\<lparr>user_id = ''1'', user_username = ''alice'', user_email = ''a@x.org'',
          user_fullName = ''Alice'', user_avatar = ''a.png'', user_coverImage = None,
          createdAt = ''d0'', updatedAt = ''d0''\<rparr>, ''t1'')"
          "\<lparr>localStorage = Map.empty, user = None, isLoading = False, errors = [],
            isLoading_form = False, posted = [], pushed = []\<rparr>"
          "''a.png''" "\<lparr>user_id = ''1'', user_username = ''alice'', user_email = ''a@x.org'',
          user_fullName = ''Alice'', user_avatar = ''a.png'', user_coverImage = None,
          createdAt = ''d0'', updatedAt = ''d0''\<rparr>" "''t1''"]
  by (simp add: formDataToSend_def)

section \<open>Route Guard\<close>

lemma renders_Cons: "renders props (a # as) inst = renders props as (AuthGuard_effects props a inst)"
  by (simp add: renders_def)

lemma renders_append: "renders props (xs @ ys) inst = renders props ys (renders props xs inst)"
  by (simp add: renders_def)

lemma renders2_Cons: "renders2 props (a # as) inst = renders2 props as (AuthGuard2_effects props a inst)"
  by (simp add: renders2_def)

lemma renders2_append: "renders2 props (xs @ ys) inst = renders2 props ys (renders2 props xs inst)"
  by (simp add: renders2_def)

lemma shown_loading:
  "\<forall>a\<in>set ls. isLoading a \<Longrightarrow> shown props ls = replicate (length ls) Placeholder"
  by (induction ls) (simp_all add: shown_def AuthGuard_render_def)

text \<open>While loading: nothing issued, the ref unset, and the last dependencies (if any) have isLoading true.\<close>

lemma effects_loading:
  assumes "isLoading a" "navigations inst = []" "\<not> hasRedirected inst"
  shows "navigations (AuthGuard_effects props a inst) = []
       \<and> \<not> hasRedirected (AuthGuard_effects props a inst)
       \<and> (\<exists>b. redirect_deps (AuthGuard_effects props a inst)
               = Some (b, True, requireAuth props, redirectTo props, router props))"
  using assms
  by (simp add: AuthGuard_effects_def useEffect_def redirect_effect_def Let_def)

lemma renders_loading:
  assumes "\<forall>a\<in>set ls. isLoading a" "navigations inst = []" "\<not> hasRedirected inst"
    "redirect_deps inst = None \<or> (\<exists>b. redirect_deps inst
               = Some (b, True, requireAuth props, redirectTo props, router props))"
  shows "navigations (renders props ls inst) = []
       \<and> \<not> hasRedirected (renders props ls inst)
       \<and> (redirect_deps (renders props ls inst) = None \<or> (\<exists>b. redirect_deps (renders props ls inst)
               = Some (b, True, requireAuth props, redirectTo props, router props)))"
  using assms
proof (induction ls arbitrary: inst)
  case Nil
  then show ?case by (simp add: renders_def)
next
  case (Cons a ls)
  have a: "isLoading a" using Cons.prems(1) by simp
  note E = effects_loading [OF a Cons.prems(2,3), of props]
  have "navigations (renders props ls (AuthGuard_effects props a inst)) = []
       \<and> \<not> hasRedirected (renders props ls (AuthGuard_effects props a inst))
       \<and> (redirect_deps (renders props ls (AuthGuard_effects props a inst)) = None
          \<or> (\<exists>b. redirect_deps (renders props ls (AuthGuard_effects props a inst))
               = Some (b, True, requireAuth props, redirectTo props, router props)))"
    using Cons.prems(1) E by (intro Cons.IH) auto
  then show ?case by (simp add: renders_Cons)
qed

lemma effects_first_resolved:
  assumes "\<not> isLoading u" "\<not> isAuthenticated u" "requireAuth props"
    "navigations inst = []" "\<not> hasRedirected inst"
    "redirect_deps inst = None \<or> (\<exists>b. redirect_deps inst
               = Some (b, True, requireAuth props, redirectTo props, router props))"
  shows "navigations (AuthGuard_effects props u inst) = [Replace (redirectTo props)]
       \<and> redirect_deps (AuthGuard_effects props u inst)
           = Some (False, False, True, redirectTo props, router props)"
  using assms
  by (auto simp: AuthGuard_effects_def useEffect_def redirect_effect_def Let_def)

lemma effects_stable:
  assumes "\<not> isLoading u" "\<not> isAuthenticated u" "requireAuth props"
    "redirect_deps inst = Some (False, False, True, redirectTo props, router props)"
  shows "navigations (AuthGuard_effects props u inst) = navigations inst
       \<and> redirect_deps (AuthGuard_effects props u inst)
           = Some (False, False, True, redirectTo props, router props)"
  using assms
  by (simp add: AuthGuard_effects_def useEffect_def Let_def)

lemma renders_stable:
  assumes "\<forall>u\<in>set us. \<not> isLoading u \<and> \<not> isAuthenticated u" "requireAuth props"
    "redirect_deps inst = Some (False, False, True, redirectTo props, router props)"
  shows "navigations (renders props us inst) = navigations inst"
  using assms
proof (induction us arbitrary: inst)
  case Nil
  then show ?case by (simp add: renders_def)
next
  case (Cons u us)
  have u: "\<not> isLoading u" "\<not> isAuthenticated u" using Cons.prems(1) by simp_all
  note E = effects_stable [OF u Cons.prems(2,3)]
  have "navigations (renders props us (AuthGuard_effects props u inst))
          = navigations (AuthGuard_effects props u inst)"
    using Cons.prems(1,2) E by (intro Cons.IH) auto
  then show ?case using E by (simp add: renders_Cons)
qed

lemma effects2_loading:
  assumes "isLoading a" "navigations inst = []"
  shows "navigations (AuthGuard2_effects props a inst) = []
       \<and> (\<exists>b. redirect_deps (AuthGuard2_effects props a inst)
               = Some (b, True, requireAuth props, redirectTo props, router props))"
  using assms
  by (simp add: AuthGuard2_effects_def useEffect_def redirect_effect2_def Let_def)

lemma renders2_loading:
  assumes "\<forall>a\<in>set ls. isLoading a" "navigations inst = []"
    "redirect_deps inst = None \<or> (\<exists>b. redirect_deps inst
               = Some (b, True, requireAuth props, redirectTo props, router props))"
  shows "navigations (renders2 props ls inst) = []
       \<and> (redirect_deps (renders2 props ls inst) = None \<or> (\<exists>b. redirect_deps (renders2 props ls inst)
               = Some (b, True, requireAuth props, redirectTo props, router props)))"
  using assms
proof (induction ls arbitrary: inst)
  case Nil
  then show ?case by (simp add: renders2_def)
next
  case (Cons a ls)
  have a: "isLoading a" using Cons.prems(1) by simp
  note E = effects2_loading [OF a Cons.prems(2), of props]
  have "navigations (renders2 props ls (AuthGuard2_effects props a inst)) = []
       \<and> (redirect_deps (renders2 props ls (AuthGuard2_effects props a inst)) = None
          \<or> (\<exists>b. redirect_deps (renders2 props ls (AuthGuard2_effects props a inst))
               = Some (b, True, requireAuth props, redirectTo props, router props)))"
    using Cons.prems(1) E by (intro Cons.IH) auto
  then show ?case by (simp add: renders2_Cons)
qed

lemma effects2_first_resolved:
  assumes "\<not> isLoading u" "\<not> isAuthenticated u" "requireAuth props"
    "navigations inst = []"
    "redirect_deps inst = None \<or> (\<exists>b. redirect_deps inst
               = Some (b, True, requireAuth props, redirectTo props, router props))"
  shows "navigations (AuthGuard2_effects props u inst) = [Push (redirectTo props)]
       \<and> redirect_deps (AuthGuard2_effects props u inst)
           = Some (False, False, True, redirectTo props, router props)"
  using assms
  by (auto simp: AuthGuard2_effects_def useEffect_def redirect_effect2_def Let_def)

lemma effects2_stable:
  assumes "\<not> isLoading u" "\<not> isAuthenticated u" "requireAuth props"
    "redirect_deps inst = Some (False, False, True, redirectTo props, router props)"
  shows "navigations (AuthGuard2_effects props u inst) = navigations inst
       \<and> redirect_deps (AuthGuard2_effects props u inst)
           = Some (False, False, True, redirectTo props, router props)"
  using assms
  by (simp add: AuthGuard2_effects_def useEffect_def Let_def)

lemma renders2_stable:
  assumes "\<forall>u\<in>set us. \<not> isLoading u \<and> \<not> isAuthenticated u" "requireAuth props"
    "redirect_deps inst = Some (False, False, True, redirectTo props, router props)"
  shows "navigations (renders2 props us inst) = navigations inst"
  using assms
proof (induction us arbitrary: inst)
  case Nil
  then show ?case by (simp add: renders2_def)
next
  case (Cons u us)
  have u: "\<not> isLoading u" "\<not> isAuthenticated u" using Cons.prems(1) by simp_all
  note E = effects2_stable [OF u Cons.prems(2,3)]
  have "navigations (renders2 props us (AuthGuard2_effects props u inst))
          = navigations (AuthGuard2_effects props u inst)"
    using Cons.prems(1,2) E by (intro Cons.IH) auto
  then show ?case using E by (simp add: renders2_Cons)
qed

text \<open>
  C6. A guard with \<^verbatim>\<open>requireAuth = true\<close> is mounted and rendered for a run of
  loading states of the Session Context, then for one or more resolved unauthenticated
  states (the props and the router object being the same at every render). During the
  loading renders it shows the placeholder and issues no navigation. The first resolved
  render issues exactly one navigation, to \<^verbatim>\<open>redirectTo\<close>, and the renders that
  follow issue none: the navigations after all of them are still that single one. This
  holds for the first version (\<^verbatim>\<open>router.replace\<close>, the \<^verbatim>\<open>hasRedirected\<close> ref)
  and for the second (\<^verbatim>\<open>router.push\<close>).
\<close>

theorem guard_redirects_exactly_once:
  assumes "requireAuth props"
    and "\<forall>a\<in>set ls. isLoading a"
    and "\<forall>u\<in>set (u # us). \<not> isLoading u \<and> \<not> isAuthenticated u"
  shows "shown props ls = replicate (length ls) Placeholder
       \<and> navigations (renders props ls mounted) = []
       \<and> navigations (renders props (ls @ [u]) mounted) = [Replace (redirectTo props)]
       \<and> navigations (renders props (ls @ u # us) mounted) = [Replace (redirectTo props)]
       \<and> navigations (renders2 props ls mounted) = []
       \<and> navigations (renders2 props (ls @ [u]) mounted) = [Push (redirectTo props)]
       \<and> navigations (renders2 props (ls @ u # us) mounted) = [Push (redirectTo props)]"
proof -
  have u: "\<not> isLoading u" "\<not> isAuthenticated u" using assms(3) by simp_all
  have us: "\<forall>u\<in>set us. \<not> isLoading u \<and> \<not> isAuthenticated u" using assms(3) by simp
  have m: "navigations mounted = []" "\<not> hasRedirected mounted"
    "redirect_deps mounted = None \<or> (\<exists>b. redirect_deps mounted
               = Some (b, True, requireAuth props, redirectTo props, router props))"
    by (simp_all add: mounted_def)
  note L = renders_loading [OF assms(2) m]
  from L have L1: "navigations (renders props ls mounted) = []"
    and L2: "\<not> hasRedirected (renders props ls mounted)"
    and L3: "redirect_deps (renders props ls mounted) = None \<or> (\<exists>b. redirect_deps (renders props ls mounted)
               = Some (b, True, requireAuth props, redirectTo props, router props))"
    by blast+
  note F = effects_first_resolved [OF u assms(1) L1 L2 L3]
  have one: "navigations (renders props (ls @ [u]) mounted) = [Replace (redirectTo props)]"
    using F by (simp add: renders_append renders_Cons renders_def)
  have more: "navigations (renders props (ls @ u # us) mounted) = [Replace (redirectTo props)]"
    using renders_stable [OF us assms(1) conjunct2 [OF F]] F
    by (simp add: renders_append renders_Cons)
  note L' = renders2_loading [OF assms(2) m(1,3)]
  from L' have L1': "navigations (renders2 props ls mounted) = []"
    and L3': "redirect_deps (renders2 props ls mounted) = None \<or> (\<exists>b. redirect_deps (renders2 props ls mounted)
               = Some (b, True, requireAuth props, redirectTo props, router props))"
    by blast+
  note F' = effects2_first_resolved [OF u assms(1) L1' L3']
  have one': "navigations (renders2 props (ls @ [u]) mounted) = [Push (redirectTo props)]"
    using F' by (simp add: renders2_append renders2_Cons renders2_def)
  have more': "navigations (renders2 props (ls @ u # us) mounted) = [Push (redirectTo props)]"
    using renders2_stable [OF us assms(1) conjunct2 [OF F']] F'
    by (simp add: renders2_append renders2_Cons)
  show ?thesis
    using shown_loading [OF assms(2), of props] L1 one more L1' one' more' by simp
qed

text \<open>
  The theorem at two loading renders followed by three renders of the resolved
  unauthenticated state, with the default props.
\<close>

theorem guard_redirects_exactly_once_witness:
  "requireAuth \<lparr>requireAuth = True, redirectTo = ''/login'', router = 0\<rparr>
   \<and> isLoading (AuthProvider_initial Map.empty)
   \<and> \<not> isLoading (checkAuthStatus (Rejected (ApiError (Some 401) None))
          (AuthProvider_initial Map.empty))
   \<and> \<not> isAuthenticated (checkAuthStatus (Rejected (ApiError (Some 401) None))
          (AuthProvider_initial Map.empty))
   \<and> shown \<lparr>requireAuth = True, redirectTo = ''/login'', router = 0\<rparr>
        [AuthProvider_initial Map.empty, AuthProvider_initial Map.empty]
       = [Placeholder, Placeholder]
   \<and> navigations (renders \<lparr>requireAuth = True, redirectTo = ''/login'', router = 0\<rparr>
        [AuthProvider_initial Map.empty, AuthProvider_initial Map.empty] mounted) = []
   \<and> navigations (renders \<lparr>requireAuth = True, redirectTo = ''/login'', router = 0\<rparr>
        ([AuthProvider_initial Map.empty, AuthProvider_initial Map.empty]
         @ checkAuthStatus (Rejected (ApiError (Some 401) None)) (AuthProvider_initial Map.empty)
         # [checkAuthStatus (Rejected (ApiError (Some 401) None)) (AuthProvider_initial Map.empty),
            checkAuthStatus (Rejected (ApiError (Some 401) None)) (AuthProvider_initial Map.empty)])
        mounted) = [Replace ''/login'']
   \<and> navigations (renders2 \<lparr>requireAuth = True, redirectTo = ''/login'', router = 0\<rparr>
        ([AuthProvider_initial Map.empty, AuthProvider_initial Map.empty]
         @ checkAuthStatus (Rejected (ApiError (Some 401) None)) (AuthProvider_initial Map.empty)
         # [checkAuthStatus (Rejected (ApiError (Some 401) None)) (AuthProvider_initial Map.empty),
            checkAuthStatus (Rejected (ApiError (Some 401) None)) (AuthProvider_initial Map.empty)])
        mounted) = [Push ''/login'']"
  using guard_redirects_exactly_once
      [of "\<lparr>requireAuth = True, redirectTo = ''/login'', router = 0\<rparr>"
          "[AuthProvider_initial Map.empty, AuthProvider_initial Map.empty]"
          "checkAuthStatus (Rejected (ApiError (Some 401) None)) (AuthProvider_initial Map.empty)"
          "[checkAuthStatus (Rejected (ApiError (Some 401) None)) (AuthProvider_initial Map.empty),
            checkAuthStatus (Rejected (ApiError (Some 401) None)) (AuthProvider_initial Map.empty)]"]
  by (simp add: AuthProvider_initial_def checkAuthStatus_def isAuthenticated_def)

section \<open>Session Record\<close>

text \<open>
  C9. The Session Record of an identity holds the refresh credential issued last. Two
  credentials that both verify for the same store are equal: at most one is live. A
  credential that verified before another one was issued for the identity fails with
  \<^verbatim>\<open>TokenRevoked\<close> afterwards, while the new one verifies. After \<^verbatim>\<open>revoke\<close>
  (logout) the record is empty, revoking again changes nothing, and every refresh attempt
  with the credential issued before fails, at any later time; while it is genuine and
  unexpired it fails with \<^verbatim>\<open>TokenRevoked\<close>.
\<close>

theorem single_live_refresh_credential:
  "store_get (snd (issue i a new st)) i = Some new
   \<and> (verifyRefresh now st t = Inr i \<and> verifyRefresh now st t' = Inr i \<longrightarrow> t = t')
   \<and> (subject old = i \<and> genuine old \<and> now < expires old \<and> old \<noteq> new
         \<and> subject new = i \<and> genuine new \<and> now < expires new
       \<longrightarrow> verifyRefresh now (snd (issue i a0 old st)) old = Inr i
           \<and> verifyRefresh now (snd (issue i a new (snd (issue i a0 old st)))) old
               = Inl TokenRevoked
           \<and> verifyRefresh now (snd (issue i a new (snd (issue i a0 old st)))) new = Inr i)
   \<and> store_get (revoke i st) i = None
   \<and> revoke i (revoke i st) = revoke i st
   \<and> (subject old = i
       \<longrightarrow> (\<exists>e. verifyRefresh later (revoke i (snd (issue i a0 old st))) old = Inl e))
   \<and> (subject old = i \<and> genuine old \<and> later < expires old
       \<longrightarrow> verifyRefresh later (revoke i (snd (issue i a0 old st))) old = Inl TokenRevoked)"
  by (auto simp: issue_def verifyRefresh_def revoke_def store_get_def store_set_def
      store_clear_def split: if_splits)

text \<open>
  The theorem at identity 7 with two credentials that differ in their serial, both
  genuine and unexpired at time 10.
\<close>

theorem single_live_refresh_credential_witness:
  "subject \<lparr>subject = 7, serial = 1, expires = 100, genuine = True\<rparr> = 7
   \<and> \<lparr>subject = 7, serial = 1, expires = 100, genuine = True\<rparr>
       \<noteq> \<lparr>subject = 7, serial = 2, expires = 100, genuine = True\<rparr>
   \<and> verifyRefresh 10
        (snd (issue 7 \<lparr>subject = 7, serial = 0, expires = 20, genuine = True\<rparr>
                \<lparr>subject = 7, serial = 1, expires = 100, genuine = True\<rparr> Map.empty))
        \<lparr>subject = 7, serial = 1, expires = 100, genuine = True\<rparr> = Inr 7
   \<and> verifyRefresh 10
        (snd (issue 7 \<lparr>subject = 7, serial = 0, expires = 20, genuine = True\<rparr>
                \<lparr>subject = 7, serial = 2, expires = 100, genuine = True\<rparr>
           (snd (issue 7 \<lparr>subject = 7, serial = 0, expires = 20, genuine = True\<rparr>
                \<lparr>subject = 7, serial = 1, expires = 100, genuine = True\<rparr> Map.empty))))
        \<lparr>subject = 7, serial = 1, expires = 100, genuine = True\<rparr> = Inl TokenRevoked
   \<and> verifyRefresh 11
        (revoke 7 (snd (issue 7 \<lparr>subject = 7, serial = 0, expires = 20, genuine = True\<rparr>
                \<lparr>subject = 7, serial = 1, expires = 100, genuine = True\<rparr> Map.empty)))
        \<lparr>subject = 7, serial = 1, expires = 100, genuine = True\<rparr> = Inl TokenRevoked"
  using single_live_refresh_credential
      [where i = 7 and now = 10 and later = 11 and st = Map.empty
         and a = "\<lparr>subject = 7, serial = 0, expires = 20, genuine = True\<rparr>"
         and a0 = "\<lparr>subject = 7, serial = 0, expires = 20, genuine = True\<rparr>"
         and old = "\<lparr>subject = 7, serial = 1, expires = 100, genuine = True\<rparr>"
         and new = "\<lparr>subject = 7, serial = 2, expires = 100, genuine = True\<rparr>"
         and t = "\<lparr>subject = 7, serial = 1, expires = 100, genuine = True\<rparr>"
         and t' = "\<lparr>subject = 7, serial = 1, expires = 100, genuine = True\<rparr>"]
  by simp

end
